theory Spec2Isabelle
  imports Complex_Main "HOL-Library.Sublist" "HOL-Library.Char_ord"
begin

section \<open>Data model\<close>

text \<open>
  The exceptions that the service (\<open>fedimg/services/gce.py\<close>), its helper
  \<open>ssh_connection_works\<close> (\<open>fedimg/util.py\<close>) and their collaborators can raise.
  \<open>ImageURLError\<close> and \<open>SSHConnectionError\<close> are the two typed failures of
  \<open>fedimg/common.py\<close>; the four connection failures are the ones the probe retries;
  \<open>IOError\<close> is what \<open>time.sleep\<close> raises on a negative argument;
  \<open>OtherError\<close> stands for every other exception a collaborator may raise.
\<close>

datatype exc =
    ResourceNotFoundError
  | ContainerDoesNotExistError
  | ImageURLError string
  | SSHConnectionError string
  | IndexError
  | BadHostKeyException string
  | AuthenticationException string
  | SSHException string
  | SocketError string
  | IOError
  | OtherError string

text \<open>Provider objects, reduced to the attributes the service reads.\<close>

record gce_image =
  image_name :: string

record node =
  node_name :: string
  public_ips :: "string list"

record node_size =
  size_name :: string
  price :: real

type_synonym location = string

record container =
  container_name :: string

record storage_object =
  object_name :: string

record http_response =
  ok :: bool
  status_code :: int
  content :: string

text \<open>
  Every call the service issues to a collaborator (compute driver, storage driver,
  \<open>requests\<close>, the SSH client, \<open>time.sleep\<close>), with its arguments.
\<close>

datatype call =
    DestroyNode node bool
  | ImageDelete gce_image
  | GetContainer string
  | CreateContainer string
  | RequestsGet string bool
  | UploadObjectViaStream "string list" container string
  | ExCreateImage string string bool
  | ListLocations
  | ListSizes location
  | CreateNode string node_size gce_image location
  | WaitUntilRunning "node list" int int
  | SshConnect string string string
  | SshClose
  | Sleep int
  | ExSetPermissions string string string string

text \<open>
  The collaborators are external: each of their operations is a function of the calls
  issued so far and of its arguments, returning a value or raising. This covers every
  deterministic behaviour of a provider, also one that answers the same call differently
  the second time.
\<close>

record compute =
  destroy_node :: "call list \<Rightarrow> node \<Rightarrow> bool \<Rightarrow> exc + bool"
  image_delete :: "call list \<Rightarrow> gce_image \<Rightarrow> exc + bool"
  ex_create_image :: "call list \<Rightarrow> string \<Rightarrow> string \<Rightarrow> bool \<Rightarrow> exc + gce_image"
  list_locations :: "call list \<Rightarrow> exc + location list"
  list_sizes :: "call list \<Rightarrow> location \<Rightarrow> exc + node_size list"
  create_node :: "call list \<Rightarrow> string \<Rightarrow> node_size \<Rightarrow> gce_image \<Rightarrow> location \<Rightarrow> exc + node"
  wait_until_running :: "call list \<Rightarrow> node list \<Rightarrow> int \<Rightarrow> int \<Rightarrow> exc + unit"

record storage =
  get_container :: "call list \<Rightarrow> string \<Rightarrow> exc + container"
  create_container :: "call list \<Rightarrow> string \<Rightarrow> exc + container"
  upload_object_via_stream ::
    "call list \<Rightarrow> string list \<Rightarrow> container \<Rightarrow> string \<Rightarrow> exc + storage_object"
  ex_set_permissions :: "call list \<Rightarrow> string \<Rightarrow> string \<Rightarrow> string \<Rightarrow> string \<Rightarrow> exc + unit"

type_synonym requests_get = "call list \<Rightarrow> string \<Rightarrow> exc + http_response"

type_synonym ssh_connect = "call list \<Rightarrow> string \<Rightarrow> string \<Rightarrow> string \<Rightarrow> exc + unit"

text \<open>
  The module constants of the package (\<open>fedimg.GCE_EMAIL\<close> and the others) are read
  from the configuration; they are parameters here.
\<close>

record config =
  GCE_EMAIL :: string
  GCE_KEYPATH :: string
  GCE_STORAGE_CONTAINER :: string

datatype level = DEBUG | INFO | WARNING

text \<open>
  The service object: the two resource lists of \<open>GCEService.__init__\<close>, together with
  the calls issued so far and the log records written so far.
\<close>

record state =
  gce_images :: "gce_image list"
  nodes :: "node list"
  calls :: "call list"
  logs :: "(level \<times> string) list"

definition init :: state where
  "init = \<lparr>gce_images = [], nodes = [], calls = [], logs = []\<rparr>"

definition log :: "level \<Rightarrow> string \<Rightarrow> state \<Rightarrow> state" where
  "log l msg s = s\<lparr>logs := logs s @ [(l, msg)]\<rparr>"

definition issue :: "call \<Rightarrow> state \<Rightarrow> state" where
  "issue c s = s\<lparr>calls := calls s @ [c]\<rparr>"

section \<open>cleanup\<close>

text \<open>The first loop of \<open>GCEService.cleanup\<close>: \<open>for node in self.nodes\<close>.\<close>

fun cleanup_nodes :: "compute \<Rightarrow> node list \<Rightarrow> state \<Rightarrow> (exc + unit) \<times> state" where
  "cleanup_nodes C [] s = (Inr (), s)"
| "cleanup_nodes C (n # rest) s =
     (let s1 = log INFO (''Deleting test instance: '' @ node_name n) s;
          r = destroy_node C (calls s1) n True;
          s2 = issue (DestroyNode n True) s1
      in case r of
           Inr deleted \<Rightarrow>
             if \<not> deleted then cleanup_nodes C rest (log WARNING ''Failed to delete test instance'' s2)
             else cleanup_nodes C rest s2
         | Inl e \<Rightarrow>
             if e = ResourceNotFoundError
             then cleanup_nodes C rest (log DEBUG ''No test instance to delete'' s2)
             else (Inl e, s2))"

text \<open>The second loop: \<open>for gce_image in self.gce_images\<close>.\<close>

fun cleanup_images :: "compute \<Rightarrow> gce_image list \<Rightarrow> state \<Rightarrow> (exc + unit) \<times> state" where
  "cleanup_images C [] s = (Inr (), s)"
| "cleanup_images C (g # rest) s =
     (let s1 = log INFO (''Deleting test image: '' @ image_name g) s;
          r = image_delete C (calls s1) g;
          s2 = issue (ImageDelete g) s1
      in case r of
           Inr deleted \<Rightarrow>
             if \<not> deleted then cleanup_images C rest (log WARNING ''Failed to delete test image'' s2)
             else cleanup_images C rest s2
         | Inl e \<Rightarrow>
             if e = ResourceNotFoundError
             then cleanup_images C rest (log DEBUG ''No test image to delete'' s2)
             else (Inl e, s2))"

definition cleanup :: "compute \<Rightarrow> state \<Rightarrow> (exc + unit) \<times> state" where
  "cleanup C s =
     (case cleanup_nodes C (nodes s) s of
        (Inl e, s1) \<Rightarrow> (Inl e, s1)
      | (Inr u, s1) \<Rightarrow> cleanup_images C (gce_images s1) s1)"

section \<open>String helpers\<close>

text \<open>\<open>xs[0]\<close>: the first element, or \<open>IndexError\<close> on an empty list.\<close>

definition index0 :: "'a list \<Rightarrow> exc + 'a" where
  "index0 xs = (case xs of [] \<Rightarrow> Inl IndexError | x # _ \<Rightarrow> Inr x)"

text \<open>
  \<open>s.split(sep)\<close> for a non-empty separator: cut at each occurrence of \<open>sep\<close>, found
  from the left, occurrences not overlapping. Both uses in the source pass a non-empty
  literal (\<open>'.tar.gz'\<close> and \<open>'@'\<close>).
\<close>

function str_split :: "string \<Rightarrow> string \<Rightarrow> string list" where
  "str_split sep [] = [[]]"
| "str_split sep (c # cs) =
     (if sep \<noteq> [] \<and> prefix sep (c # cs)
      then [] # str_split sep (drop (length sep) (c # cs))
      else (case str_split sep cs of
              [] \<Rightarrow> [[c]]
            | p # ps \<Rightarrow> (c # p) # ps))"
  by pat_completeness auto
termination
  by (relation "measure (\<lambda>(sep, s). length s)") auto

text \<open>The character class \<open>[^a-zA-Z\d]\<close> (on byte strings \<open>\d\<close> is \<open>[0-9]\<close>).\<close>

definition alnum :: "char \<Rightarrow> bool" where
  "alnum c \<longleftrightarrow>
     (CHR ''a'' \<le> c \<and> c \<le> CHR ''z'') \<or> (CHR ''A'' \<le> c \<and> c \<le> CHR ''Z'') \<or>
     (CHR ''0'' \<le> c \<and> c \<le> CHR ''9'')"

definition non_alnum :: "char \<Rightarrow> bool" where
  "non_alnum c \<longleftrightarrow> \<not> alnum c"

text \<open>
  \<open>re.sub('[cls]+', repl, s)\<close>: scanning from the left, the longest run of characters
  of the class starting at the current position is replaced by \<open>repl\<close>; any other
  character is copied.
\<close>

function re_sub :: "(char \<Rightarrow> bool) \<Rightarrow> string \<Rightarrow> string \<Rightarrow> string" where
  "re_sub cls repl [] = []"
| "re_sub cls repl (c # cs) =
     (if cls c then repl @ re_sub cls repl (dropWhile cls cs)
      else c # re_sub cls repl cs)"
  by pat_completeness auto
termination
  by (relation "measure (\<lambda>(cls, repl, s). length s)")
     (auto simp: length_dropWhile_le less_Suc_eq_le)

text \<open>\<open>os.path.basename\<close>: what follows the last slash.\<close>

definition basename :: "string \<Rightarrow> string" where
  "basename p = rev (takeWhile (\<lambda>c. c \<noteq> CHR ''/'') (rev p))"

text \<open>\<open>str\<close> of an integer, as \<open>format\<close> prints it.\<close>

definition digit_char :: "nat \<Rightarrow> char" where
  "digit_char d = ''0123456789'' ! d"

function show_nat :: "nat \<Rightarrow> string" where
  "show_nat n = (if n < 10 then [digit_char n] else show_nat (n div 10) @ [digit_char (n mod 10)])"
  by pat_completeness auto
termination
  by (relation "measure id") auto

definition show_int :: "int \<Rightarrow> string" where
  "show_int i = (if i < 0 then CHR ''-'' # show_nat (nat (- i)) else show_nat (nat i))"

text \<open>
  \<open>resp.iter_content(chunk_size)\<close>: the body in chunks of \<open>chunk_size\<close> bytes, the last
  one possibly shorter.
\<close>

function iter_content :: "nat \<Rightarrow> string \<Rightarrow> string list" where
  "iter_content chunk_size body =
     (if body = [] \<or> chunk_size = 0 then []
      else take chunk_size body # iter_content chunk_size (drop chunk_size body))"
  by pat_completeness auto
termination
  by (relation "measure (\<lambda>(n, body). length body)") auto

section \<open>ssh_connection_works\<close>

text \<open>
  The four exception classes of the \<open>except\<close> clause of \<open>ssh_connection_works\<close>, and the
  \<open>message\<close> attribute that the handler logs.
\<close>

fun retryable :: "exc \<Rightarrow> bool" where
  "retryable (BadHostKeyException m) = True"
| "retryable (AuthenticationException m) = True"
| "retryable (SSHException m) = True"
| "retryable (SocketError m) = True"
| "retryable e = False"

fun message :: "exc \<Rightarrow> string" where
  "message (BadHostKeyException m) = m"
| "message (AuthenticationException m) = m"
| "message (SSHException m) = m"
| "message (SocketError m) = m"
| "message (ImageURLError m) = m"
| "message (SSHConnectionError m) = m"
| "message (OtherError m) = m"
| "message e = []"

text \<open>
  The \<open>while True\<close> loop, entered with the number of attempts made so far. The
  \<open>finally\<close> clause closes the client on every way out of the \<open>try\<close> statement: after
  the \<open>return\<close>s, after the sleep, and when an exception propagates. \<open>time.sleep\<close> raises
  on a negative interval.
\<close>

function ssh_loop ::
  "ssh_connect \<Rightarrow> string \<Rightarrow> string \<Rightarrow> string \<Rightarrow> int \<Rightarrow> int \<Rightarrow> int \<Rightarrow> state \<Rightarrow> (exc + bool) \<times> state"
where
  "ssh_loop connect username ip keypath attempts interval attempt0 s =
     (let attempt = attempt0 + 1;
          r = connect (calls s) ip username keypath;
          s1 = issue (SshConnect ip username keypath) s
      in case r of
           Inr u \<Rightarrow>
             (Inr True,
              issue SshClose
                (log INFO (''SSH connection successful to '' @ username @ ''@'' @ ip) s1))
         | Inl e \<Rightarrow>
             if retryable e then
               (let s2 = log DEBUG (''SSH connection failed with '' @ [CHR 0x22] @ message e @ [CHR 0x22]) s1
                in if attempt \<ge> attempts then (Inr False, issue SshClose s2)
                   else if interval < 0 then (Inl IOError, issue SshClose (issue (Sleep interval) s2))
                   else ssh_loop connect username ip keypath attempts interval attempt
                          (issue SshClose (issue (Sleep interval) s2)))
             else (Inl e, issue SshClose s1))"
  by pat_completeness auto
termination
  by (relation "measure (\<lambda>(connect, username, ip, keypath, attempts, interval, attempt0, s).
                  nat (attempts - attempt0))") auto

declare ssh_loop.simps [simp del]

definition ssh_connection_works ::
  "ssh_connect \<Rightarrow> string \<Rightarrow> string \<Rightarrow> string \<Rightarrow> int \<Rightarrow> int \<Rightarrow> state \<Rightarrow> (exc + bool) \<times> state"
where
  "ssh_connection_works connect username ip keypath attempts interval s =
     ssh_loop connect username ip keypath attempts interval 0
       (log INFO (''Testing SSH connectivity to '' @ username @ ''@'' @ ip) s)"

section \<open>upload\<close>

definition CHUNK_SIZE :: nat where
  "CHUNK_SIZE = 4 * 1024 * 1024"

definition STORAGE_URL :: string where
  "STORAGE_URL = ''https://storage.googleapis.com''"

definition upload ::
  "config \<Rightarrow> storage \<Rightarrow> requests_get \<Rightarrow> string \<Rightarrow> state \<Rightarrow> (exc + storage_object) \<times> state"
where
  "upload cfg ST get image_url s =
     (let obj_name = basename image_url;
          cont_name = GCE_STORAGE_CONTAINER cfg;
          s1 = log INFO (''Uploading '' @ image_url @ '' to container '' @ cont_name) s;
          r = get_container ST (calls s1) cont_name;
          s2 = issue (GetContainer cont_name) s1
      in case
           (case r of
              Inr c \<Rightarrow> (Inr c, s2)
            | Inl e \<Rightarrow>
                if e = ContainerDoesNotExistError then
                  (let s3 = log INFO (''Creating container: '' @ cont_name) s2
                   in (create_container ST (calls s3) cont_name,
                       issue (CreateContainer cont_name) s3))
                else (Inl e, s2))
         of
           (Inl e, s4) \<Rightarrow> (Inl e, s4)
         | (Inr cont, s4) \<Rightarrow>
             (let r2 = get (calls s4) image_url;
                  s5 = issue (RequestsGet image_url True) s4
              in case r2 of
                   Inl e \<Rightarrow> (Inl e, s5)
                 | Inr resp \<Rightarrow>
                     if \<not> ok resp then
                       (Inl (ImageURLError
                              (''GET request to image failed ('' @ image_url @ ''). '' @
                               ''The server response code was '' @ show_int (status_code resp))),
                        s5)
                     else
                       (let iterator = iter_content CHUNK_SIZE (content resp)
                        in (upload_object_via_stream ST (calls s5) iterator cont obj_name,
                            issue (UploadObjectViaStream iterator cont obj_name) s5))))"

section \<open>test\<close>

text \<open>
  The name of the GCE image, \<open>re.sub('[^a-zA-Z\d]+', '-', image.name.split('.tar.gz')[0])\<close>,
  and the choice of the instance size, \<open>sizes.sort(key=lambda x: x.price); sizes[0]\<close>
  (\<open>list.sort\<close> is stable, as \<open>sort_key\<close> is).
\<close>

definition gce_image_name_of :: "string \<Rightarrow> exc + string" where
  "gce_image_name_of name =
     (case index0 (str_split ''.tar.gz'' name) of
        Inl e \<Rightarrow> Inl e
      | Inr stem \<Rightarrow> Inr (re_sub non_alnum ''-'' stem))"

definition cheapest_size :: "node_size list \<Rightarrow> exc + node_size" where
  "cheapest_size sizes = index0 (sort_key price sizes)"

definition test ::
  "config \<Rightarrow> compute \<Rightarrow> ssh_connect \<Rightarrow> storage_object \<Rightarrow> state \<Rightarrow> (exc + unit) \<times> state"
where
  "test cfg C connect img s =
     (let s1 = log INFO (''Testing image '' @ object_name img) s
      in case gce_image_name_of (object_name img) of
           Inl e \<Rightarrow> (Inl e, s1)
         | Inr gce_image_name \<Rightarrow>
     (let image_url = STORAGE_URL @ ''/'' @ GCE_STORAGE_CONTAINER cfg @ ''/'' @ object_name img;
          s2 = log INFO (''Creating GCE image '' @ [CHR 0x22] @ gce_image_name @ [CHR 0x22] @
                         '' from image object '' @ [CHR 0x22] @ image_url @ [CHR 0x22] @ ''...'') s1;
          r = ex_create_image C (calls s2) gce_image_name image_url True;
          s3 = issue (ExCreateImage gce_image_name image_url True) s2
      in case r of
           Inl e \<Rightarrow> (Inl e, s3)
         | Inr gce_image \<Rightarrow>
     (let s4 = s3\<lparr>gce_images := gce_images s3 @ [gce_image]\<rparr>;
          r = list_locations C (calls s4);
          s5 = issue ListLocations s4
      in case r of
           Inl e \<Rightarrow> (Inl e, s5)
         | Inr locations \<Rightarrow>
     (case index0 locations of
           Inl e \<Rightarrow> (Inl e, s5)
         | Inr location \<Rightarrow>
     (let r = list_sizes C (calls s5) location;
          s6 = issue (ListSizes location) s5
      in case r of
           Inl e \<Rightarrow> (Inl e, s6)
         | Inr sizes \<Rightarrow>
     (case cheapest_size sizes of
           Inl e \<Rightarrow> (Inl e, s6)
         | Inr sz \<Rightarrow>
     (let s7 = log INFO (''Launching test instance '' @ image_name gce_image) s6;
          r = create_node C (calls s7) (image_name gce_image) sz gce_image location;
          s8 = issue (CreateNode (image_name gce_image) sz gce_image location) s7
      in case r of
           Inl e \<Rightarrow> (Inl e, s8)
         | Inr nd \<Rightarrow>
     (let s9 = s8\<lparr>nodes := nodes s8 @ [nd]\<rparr>;
          s10 = log INFO (''Waiting until instance '' @ node_name nd @ '' is running...'') s9;
          r = wait_until_running C (calls s10) [nd] 10 600;
          s11 = issue (WaitUntilRunning [nd] 10 600) s10
      in case r of
           Inl e \<Rightarrow> (Inl e, s11)
         | Inr u \<Rightarrow>
     (let s12 = log INFO (''Instance '' @ node_name nd @ '' is now running'') s11;
          s13 = log INFO ''Testing SSH connectivity to the instance...'' s12
      in case index0 (str_split ''@'' (GCE_EMAIL cfg)) of
           Inl e \<Rightarrow> (Inl e, s13)
         | Inr username \<Rightarrow>
     (case index0 (public_ips nd) of
           Inl e \<Rightarrow> (Inl e, s13)
         | Inr ip \<Rightarrow>
     (case ssh_connection_works connect username ip (GCE_KEYPATH cfg) 60 60 s13 of
           (Inl e, s14) \<Rightarrow> (Inl e, s14)
         | (Inr works, s14) \<Rightarrow>
             if \<not> works then
               (Inl (SSHConnectionError
                      (''Cannot SSH to test instance '' @ node_name nd @ ''. '' @
                       ''Perhaps the image is improperly '' @
                       ''configured for GCE.'')),
                s14)
             else
               (Inr (),
                log INFO (''Image '' @ object_name img @ '' passed a basic sanity test'') s14))))))))))))"

section \<open>share and publish\<close>

fun share :: "config \<Rightarrow> storage \<Rightarrow> storage_object \<Rightarrow> string list \<Rightarrow> state \<Rightarrow> (exc + unit) \<times> state" where
  "share cfg ST img [] s = (Inr (), s)"
| "share cfg ST img (entity # rest) s =
     (let s1 = log INFO (''Sharing image '' @ object_name img @ '' with '' @ entity) s;
          r = ex_set_permissions ST (calls s1) (GCE_STORAGE_CONTAINER cfg) (object_name img)
                entity ''READER'';
          s2 = issue (ExSetPermissions (GCE_STORAGE_CONTAINER cfg) (object_name img)
                        entity ''READER'') s1
      in case r of
           Inl e \<Rightarrow> (Inl e, s2)
         | Inr u \<Rightarrow> share cfg ST img rest s2)"

definition publish :: "config \<Rightarrow> storage \<Rightarrow> storage_object \<Rightarrow> state \<Rightarrow> (exc + unit) \<times> state" where
  "publish cfg ST img s =
     (let s1 = log INFO (''Publishing image '' @ object_name img @ '' publicly'') s;
          r = ex_set_permissions ST (calls s1) (GCE_STORAGE_CONTAINER cfg) (object_name img)
                ''allUsers'' ''READER'';
          s2 = issue (ExSetPermissions (GCE_STORAGE_CONTAINER cfg) (object_name img)
                        ''allUsers'' ''READER'') s1
      in (r, s2))"

section \<open>Vocabulary of the properties of cleanup\<close>

text \<open>
  The destroy or delete call \<open>c\<close>, issued after the calls \<open>tr\<close>, raises \<open>e\<close>; that
  call returns (true or false) or raises \<open>ResourceNotFoundError\<close>, the two outcomes
  after which \<open>cleanup\<close> goes on; and the calls of a complete \<open>cleanup\<close>, one destroy call
  for each recorded instance and then one delete call for each recorded image.
\<close>

definition raises :: "compute \<Rightarrow> call list \<Rightarrow> call \<Rightarrow> exc \<Rightarrow> bool" where
  "raises C tr c e =
     (case c of
        DestroyNode n b \<Rightarrow> destroy_node C tr n b = Inl e
      | ImageDelete g \<Rightarrow> image_delete C tr g = Inl e
      | _ \<Rightarrow> False)"

definition survives :: "compute \<Rightarrow> call list \<Rightarrow> call \<Rightarrow> bool" where
  "survives C tr c =
     (case c of
        DestroyNode n b \<Rightarrow>
          (case destroy_node C tr n b of Inl e \<Rightarrow> e = ResourceNotFoundError | Inr deleted \<Rightarrow> True)
      | ImageDelete g \<Rightarrow>
          (case image_delete C tr g of Inl e \<Rightarrow> e = ResourceNotFoundError | Inr deleted \<Rightarrow> True)
      | _ \<Rightarrow> True)"

definition cleanup_calls :: "state \<Rightarrow> call list" where
  "cleanup_calls s = map (\<lambda>n. DestroyNode n True) (nodes s) @ map ImageDelete (gce_images s)"

section \<open>Vocabulary of the properties of the probe\<close>

text \<open>
  The calls of one failed attempt that is followed by another one (connect, sleep, close);
  the calls of \<open>k\<close> such attempts; the calls of the attempt after which the probe returns
  (connect, close); and what it means that the connection attempt made after the calls
  \<open>tr\<close> fails with one of the four retried exceptions.
\<close>

definition failed_attempt :: "string \<Rightarrow> string \<Rightarrow> string \<Rightarrow> int \<Rightarrow> call list" where
  "failed_attempt ip username keypath interval =
     [SshConnect ip username keypath, Sleep interval, SshClose]"

definition retries :: "nat \<Rightarrow> string \<Rightarrow> string \<Rightarrow> string \<Rightarrow> int \<Rightarrow> call list" where
  "retries k ip username keypath interval =
     concat (replicate k (failed_attempt ip username keypath interval))"

definition last_attempt :: "string \<Rightarrow> string \<Rightarrow> string \<Rightarrow> call list" where
  "last_attempt ip username keypath = [SshConnect ip username keypath, SshClose]"

definition fails_at :: "ssh_connect \<Rightarrow> call list \<Rightarrow> string \<Rightarrow> string \<Rightarrow> string \<Rightarrow> bool" where
  "fails_at connect tr ip username keypath =
     (case connect tr ip username keypath of Inl e \<Rightarrow> retryable e | Inr u \<Rightarrow> False)"

section \<open>The derived image name in the words of the specification\<close>

text \<open>
  The specification describes the name of the GCE image in two steps: strip the
  \<open>.tar.gz\<close> archive suffix of the object name, then replace every maximal run of
  characters outside \<open>[A-Za-z0-9]\<close> with a single hyphen. These definitions follow those
  words, not the source: \<open>spec_strip_suffix\<close> removes \<open>.tar.gz\<close> at the end of the name
  and nowhere else, \<open>runs\<close> cuts a string into its maximal runs of characters that are all
  inside or all outside a class, and \<open>spec_replace_runs\<close> replaces each run outside the
  alphanumerics by one hyphen.
\<close>

definition spec_strip_suffix :: "string \<Rightarrow> string" where
  "spec_strip_suffix name =
     (if suffix ''.tar.gz'' name then take (length name - length ''.tar.gz'') name else name)"

function runs :: "('a \<Rightarrow> bool) \<Rightarrow> 'a list \<Rightarrow> 'a list list" where
  "runs P [] = []"
| "runs P (c # cs) =
     (c # takeWhile (\<lambda>d. P d = P c) cs) # runs P (dropWhile (\<lambda>d. P d = P c) cs)"
  by pat_completeness auto
termination
  by (relation "measure (\<lambda>(P, s). length s)")
     (auto simp: length_dropWhile_le less_Suc_eq_le)

definition spec_replace_runs :: "string \<Rightarrow> string" where
  "spec_replace_runs s =
     concat (map (\<lambda>r. if non_alnum (hd r) then ''-'' else r) (runs non_alnum s))"

definition spec_image_name :: "string \<Rightarrow> string" where
  "spec_image_name name = spec_replace_runs (spec_strip_suffix name)"

section \<open>Vocabulary of the properties of share\<close>

text \<open>
  The permission call that gives \<open>entity\<close> the role \<open>READER\<close> on the object of the image
  in the configured container.
\<close>

definition grant :: "config \<Rightarrow> storage_object \<Rightarrow> string \<Rightarrow> call" where
  "grant cfg img entity =
     ExSetPermissions (GCE_STORAGE_CONTAINER cfg) (object_name img) entity ''READER''"

section \<open>Collaborators and service states of the examples\<close>

text \<open>
  A compute driver on which every call succeeds, with the five sizes of the test suite
  (\<open>test_verify_cheapest_size\<close>), and the service state of \<open>test_cleanup\<close>: two test
  images and two test instances.
\<close>

definition mock_compute :: compute where
  "mock_compute =
     \<lparr>destroy_node = (\<lambda>tr n b. Inr True),
      image_delete = (\<lambda>tr g. Inr True),
      ex_create_image = (\<lambda>tr name url w. Inr \<lparr>image_name = name\<rparr>),
      list_locations = (\<lambda>tr. Inr [''us-central1-a'', ''europe-west1-b'']),
      list_sizes = (\<lambda>tr loc. Inr
         [\<lparr>size_name = ''n1-standard-1'', price = 1.2\<rparr>,
          \<lparr>size_name = ''g1-small'', price = 0.1\<rparr>,
          \<lparr>size_name = ''n1-highmem-16'', price = 999\<rparr>,
          \<lparr>size_name = ''f1-micro'', price = 0.01\<rparr>,
          \<lparr>size_name = ''f1-mini'', price = 0.011\<rparr>]),
      create_node = (\<lambda>tr name sz g loc. Inr \<lparr>node_name = name, public_ips = [''203.0.113.7'']\<rparr>),
      wait_until_running = (\<lambda>tr ns p t. Inr ())\<rparr>"

definition two_each :: state where
  "two_each = init
     \<lparr>gce_images := [\<lparr>image_name = ''gce-image-1''\<rparr>, \<lparr>image_name = ''gce-image-2''\<rparr>],
      nodes := [\<lparr>node_name = ''node-1'', public_ips = []\<rparr>, \<lparr>node_name = ''node-2'', public_ips = []\<rparr>]\<rparr>"

text \<open>
  A compute driver on which the first instance and both images are already gone, and the
  deletion of the second instance is refused.
\<close>

definition gone_compute :: compute where
  "gone_compute = mock_compute
     \<lparr>destroy_node := (\<lambda>tr n b. if node_name n = ''node-1'' then Inl ResourceNotFoundError else Inr False),
      image_delete := (\<lambda>tr g. Inl ResourceNotFoundError)\<rparr>"


text \<open>
  A compute driver on which every deletion of an instance fails with a quota error, and
  one on which the instances are handled as by \<open>gone_compute\<close> and every deletion of an
  image fails with a quota error.
\<close>

definition quota_compute :: compute where
  "quota_compute = mock_compute\<lparr>destroy_node := (\<lambda>tr n b. Inl (OtherError ''quota''))\<rparr>"

definition image_quota_compute :: compute where
  "image_quota_compute = gone_compute\<lparr>image_delete := (\<lambda>tr g. Inl (OtherError ''quota''))\<rparr>"

text \<open>
  An instance that never accepts a connection, and one that accepts a connection once six
  calls have been issued: the third attempt of a probe that starts with no earlier call,
  the second attempt of the probe of \<open>test\<close>, which comes after five calls to the
  compute driver.
\<close>

definition never_up :: ssh_connect where
  "never_up = (\<lambda>tr ip username keypath. Inl (SocketError ''timed out''))"

definition up_after_six_calls :: ssh_connect where
  "up_after_six_calls = (\<lambda>tr ip username keypath.
     if length tr < 6 then Inl (SocketError ''timed out'') else Inr ())"

text \<open>
  The configuration and the image object of the examples (the file name is the one of the
  test suite), and three compute drivers that answer with an empty list of locations, an
  empty list of sizes, and an instance without public address.
\<close>

definition mock_config :: config where
  "mock_config =
     \<lparr>GCE_EMAIL = ''fedimg@example-project.iam.gserviceaccount.com'',
      GCE_KEYPATH = ''/etc/fedimg/gce.pem'',
      GCE_STORAGE_CONTAINER = ''fedimg-images''\<rparr>"

definition fake_image :: storage_object where
  "fake_image = \<lparr>object_name = ''fake-img-1.2-3.tar.gz''\<rparr>"

definition no_locations :: compute where
  "no_locations = mock_compute\<lparr>list_locations := (\<lambda>tr. Inr [])\<rparr>"

definition no_sizes :: compute where
  "no_sizes = mock_compute\<lparr>list_sizes := (\<lambda>tr loc. Inr [])\<rparr>"

definition no_public_ips :: compute where
  "no_public_ips = mock_compute
     \<lparr>create_node := (\<lambda>tr name sz g loc. Inr \<lparr>node_name = name, public_ips = []\<rparr>)\<rparr>"

text \<open>
  A storage driver on which every call succeeds, one whose container does not exist yet,
  a source that answers with the status code -1 of \<open>test_upload_bad_url_response\<close>, and
  the URL of the test suite.
\<close>

definition mock_storage :: storage where
  "mock_storage =
     \<lparr>get_container = (\<lambda>tr n. Inr \<lparr>container_name = n\<rparr>),
      create_container = (\<lambda>tr n. Inr \<lparr>container_name = n\<rparr>),
      upload_object_via_stream = (\<lambda>tr iterator c n. Inr \<lparr>object_name = n\<rparr>),
      ex_set_permissions = (\<lambda>tr c n entity role. Inr ())\<rparr>"

definition no_container :: storage where
  "no_container = mock_storage\<lparr>get_container := (\<lambda>tr n. Inl ContainerDoesNotExistError)\<rparr>"

definition bad_response :: requests_get where
  "bad_response = (\<lambda>tr url. Inr \<lparr>ok = False, status_code = - 1, content = ''<html>''\<rparr>)"

definition FAKE_IMAGE_URL :: string where
  "FAKE_IMAGE_URL = ''http://fake.fedimg.com/fake-img-1.2-3.tar.gz''"

section \<open>Basic facts\<close>

lemma issue_simps [simp]:
  "calls (issue c s) = calls s @ [c]" "nodes (issue c s) = nodes s"
  "gce_images (issue c s) = gce_images s" "logs (issue c s) = logs s"
  by (simp_all add: issue_def)

lemma log_simps [simp]:
  "calls (log l m s) = calls s" "nodes (log l m s) = nodes s"
  "gce_images (log l m s) = gce_images s" "logs (log l m s) = logs s @ [(l, m)]"
  by (simp_all add: log_def)

lemma index0_simps [simp]: "index0 [] = Inl IndexError" "index0 (x # xs) = Inr x"
  by (simp_all add: index0_def)

lemma str_split_nonempty: "str_split sep s \<noteq> []"
  by (induction sep s rule: str_split.induct) (auto split: list.splits)

lemma index0_str_split: "index0 (str_split sep s) = Inr (hd (str_split sep s))"
  using str_split_nonempty[of sep s] by (cases "str_split sep s") (simp_all add: index0_def)

lemma gce_image_name_of_total:
  "gce_image_name_of name = Inr (re_sub non_alnum ''-'' (hd (str_split ''.tar.gz'' name)))"
  by (simp add: gce_image_name_of_def index0_str_split)

section \<open>Properties of cleanup\<close>

lemma cleanup_nodes_keeps:
  "nodes (snd (cleanup_nodes C ns s)) = nodes s \<and> gce_images (snd (cleanup_nodes C ns s)) = gce_images s"
  by (induction ns arbitrary: s) (auto simp: Let_def split: sum.splits)

lemma cleanup_images_keeps:
  "nodes (snd (cleanup_images C gs s)) = nodes s \<and> gce_images (snd (cleanup_images C gs s)) = gce_images s"
  by (induction gs arbitrary: s) (auto simp: Let_def split: sum.splits)

lemma cleanup_keeps:
  "nodes (snd (cleanup C s)) = nodes s \<and> gce_images (snd (cleanup C s)) = gce_images s"
  using cleanup_nodes_keeps[of C "nodes s" s] cleanup_images_keeps[of C "gce_images s" "snd (cleanup_nodes C (nodes s) s)"]
  by (auto simp: cleanup_def split: prod.splits sum.splits)

lemma cleanup_nodes_returns:
  "fst (cleanup_nodes C ns s) = Inr u \<Longrightarrow>
   calls (snd (cleanup_nodes C ns s)) = calls s @ map (\<lambda>n. DestroyNode n True) ns"
  by (induction ns arbitrary: s) (auto simp: Let_def split: sum.splits if_splits)

lemma cleanup_images_returns:
  "fst (cleanup_images C gs s) = Inr u \<Longrightarrow>
   calls (snd (cleanup_images C gs s)) = calls s @ map ImageDelete gs"
  by (induction gs arbitrary: s) (auto simp: Let_def split: sum.splits if_splits)

lemma cleanup_returns:
  assumes "fst (cleanup C s) = Inr u"
  shows "calls (snd (cleanup C s)) =
         calls s @ map (\<lambda>n. DestroyNode n True) (nodes s) @ map ImageDelete (gce_images s)"
proof -
  obtain r1 s1 where n: "cleanup_nodes C (nodes s) s = (r1, s1)" by force
  with assms obtain u1 where r1: "r1 = Inr u1"
    by (cases r1) (auto simp: cleanup_def)
  from n r1 have im: "cleanup C s = cleanup_images C (gce_images s1) s1"
    by (simp add: cleanup_def)
  have c1: "calls s1 = calls s @ map (\<lambda>n. DestroyNode n True) (nodes s)"
    using cleanup_nodes_returns[of C "nodes s" s u1] n r1 by simp
  have g1: "gce_images s1 = gce_images s"
    using cleanup_nodes_keeps[of C "nodes s" s] n by simp
  show ?thesis
    using cleanup_images_returns[of C "gce_images s1" s1 u] assms im c1 g1 by simp
qed

lemma cleanup_nodes_not_gone:
  "fst (cleanup_nodes C ns s) \<noteq> Inl ResourceNotFoundError"
  by (induction ns arbitrary: s) (auto simp: Let_def split: sum.splits)

lemma cleanup_images_not_gone:
  "fst (cleanup_images C gs s) \<noteq> Inl ResourceNotFoundError"
  by (induction gs arbitrary: s) (auto simp: Let_def split: sum.splits)


lemma cleanup_nodes_total:
  "\<forall>tr. \<forall>n \<in> set ns. \<forall>e. destroy_node C tr n True = Inl e \<longrightarrow> e = ResourceNotFoundError \<Longrightarrow>
   fst (cleanup_nodes C ns s) = Inr ()"
proof (induction ns arbitrary: s)
  case Nil
  then show ?case by simp
next
  case (Cons n ns)
  from Cons.prems have rest: "\<And>s'. fst (cleanup_nodes C ns s') = Inr ()"
    by (intro Cons.IH) simp
  from Cons.prems have here: "\<And>tr e. destroy_node C tr n True = Inl e \<Longrightarrow> e = ResourceNotFoundError"
    by simp
  show ?case
    by (auto simp: Let_def rest split: sum.splits dest: here)
qed

lemma cleanup_images_total:
  "\<forall>tr. \<forall>g \<in> set gs. \<forall>e. image_delete C tr g = Inl e \<longrightarrow> e = ResourceNotFoundError \<Longrightarrow>
   fst (cleanup_images C gs s) = Inr ()"
proof (induction gs arbitrary: s)
  case Nil
  then show ?case by simp
next
  case (Cons g gs)
  from Cons.prems have rest: "\<And>s'. fst (cleanup_images C gs s') = Inr ()"
    by (intro Cons.IH) simp
  from Cons.prems have here: "\<And>tr e. image_delete C tr g = Inl e \<Longrightarrow> e = ResourceNotFoundError"
    by simp
  show ?case
    by (auto simp: Let_def rest split: sum.splits dest: here)
qed

lemma cleanup_total:
  assumes "\<forall>tr. \<forall>n \<in> set (nodes s). \<forall>e. destroy_node C tr n True = Inl e \<longrightarrow> e = ResourceNotFoundError"
      and "\<forall>tr. \<forall>g \<in> set (gce_images s). \<forall>e. image_delete C tr g = Inl e \<longrightarrow> e = ResourceNotFoundError"
  shows "fst (cleanup C s) = Inr ()"
proof -
  obtain r1 s1 where n: "cleanup_nodes C (nodes s) s = (r1, s1)" by force
  have r1: "r1 = Inr ()"
    using cleanup_nodes_total[OF assms(1), of s] n by simp
  have g1: "gce_images s1 = gce_images s"
    using cleanup_nodes_keeps[of C "nodes s" s] n by simp
  show ?thesis
    using cleanup_images_total[of "gce_images s1" C s1] assms(2) n r1 g1
    by (simp add: cleanup_def)
qed

lemma cleanup_not_gone: "fst (cleanup C s) \<noteq> Inl ResourceNotFoundError"
  using cleanup_nodes_not_gone[of C "nodes s" s]
    cleanup_images_not_gone[of C "gce_images (snd (cleanup_nodes C (nodes s) s))" "snd (cleanup_nodes C (nodes s) s)"]
  by (auto simp: cleanup_def split: prod.splits sum.splits)

lemma cleanup_nodes_raises:
  "fst (cleanup_nodes C ns s) = Inl e \<Longrightarrow>
   \<exists>tr c. calls (snd (cleanup_nodes C ns s)) = tr @ [c] \<and> raises C tr c e"
proof (induction ns arbitrary: s)
  case Nil
  then show ?case by simp
next
  case (Cons n ns)
  show ?case
  proof (cases "destroy_node C (calls s) n True")
    case (Inr b)
    with Cons show ?thesis by (auto simp: Let_def)
  next
    case (Inl x)
    show ?thesis
    proof (cases "x = ResourceNotFoundError")
      case True
      with Inl Cons show ?thesis by (auto simp: Let_def)
    next
      case False
      with Inl have "calls (snd (cleanup_nodes C (n # ns) s)) = calls s @ [DestroyNode n True]"
        and "fst (cleanup_nodes C (n # ns) s) = Inl x"
        by (simp_all add: Let_def)
      with Cons.prems Inl show ?thesis
        by (intro exI[of _ "calls s"] exI[of _ "DestroyNode n True"]) (simp add: raises_def)
    qed
  qed
qed

lemma cleanup_images_raises:
  "fst (cleanup_images C gs s) = Inl e \<Longrightarrow>
   \<exists>tr c. calls (snd (cleanup_images C gs s)) = tr @ [c] \<and> raises C tr c e"
proof (induction gs arbitrary: s)
  case Nil
  then show ?case by simp
next
  case (Cons g gs)
  show ?case
  proof (cases "image_delete C (calls s) g")
    case (Inr b)
    with Cons show ?thesis by (auto simp: Let_def)
  next
    case (Inl x)
    show ?thesis
    proof (cases "x = ResourceNotFoundError")
      case True
      with Inl Cons show ?thesis by (auto simp: Let_def)
    next
      case False
      with Inl have "calls (snd (cleanup_images C (g # gs) s)) = calls s @ [ImageDelete g]"
        and "fst (cleanup_images C (g # gs) s) = Inl x"
        by (simp_all add: Let_def)
      with Cons.prems Inl show ?thesis
        by (intro exI[of _ "calls s"] exI[of _ "ImageDelete g"]) (simp add: raises_def)
    qed
  qed
qed

lemma cleanup_raises:
  assumes "fst (cleanup C s) = Inl e"
  shows "\<exists>tr c. calls (snd (cleanup C s)) = tr @ [c] \<and> raises C tr c e"
proof -
  obtain r1 s1 where n: "cleanup_nodes C (nodes s) s = (r1, s1)" by force
  show ?thesis
  proof (cases r1)
    case (Inl x)
    with n assms have "cleanup C s = (Inl e, s1)" by (simp add: cleanup_def)
    moreover from Inl n assms have "fst (cleanup_nodes C (nodes s) s) = Inl e"
      by (simp add: cleanup_def)
    ultimately show ?thesis
      using cleanup_nodes_raises[of C "nodes s" s e] n by simp
  next
    case (Inr u)
    with n have "cleanup C s = cleanup_images C (gce_images s1) s1"
      by (simp add: cleanup_def)
    with assms show ?thesis
      using cleanup_images_raises[of C "gce_images s1" s1 e] by simp
  qed
qed

lemma cleanup_nodes_abort:
  assumes "k < length ns"
      and "\<forall>j<k. survives C (calls s @ take j (map (\<lambda>n. DestroyNode n True) ns))
                   (map (\<lambda>n. DestroyNode n True) ns ! j)"
      and "raises C (calls s @ take k (map (\<lambda>n. DestroyNode n True) ns))
             (map (\<lambda>n. DestroyNode n True) ns ! k) e"
      and "e \<noteq> ResourceNotFoundError"
  shows "fst (cleanup_nodes C ns s) = Inl e \<and>
         calls (snd (cleanup_nodes C ns s)) =
           calls s @ take (Suc k) (map (\<lambda>n. DestroyNode n True) ns)"
  using assms
proof (induction ns arbitrary: k s)
  case Nil
  then show ?case by simp
next
  case (Cons n ns)
  show ?case
  proof (cases k)
    case 0
    with Cons.prems(3) have "destroy_node C (calls s) n True = Inl e"
      by (simp add: raises_def)
    with Cons.prems(4) 0 show ?thesis by (simp add: Let_def)
  next
    case (Suc k')
    from Cons.prems(2) Suc have "survives C (calls s) (DestroyNode n True)"
      by (auto dest: spec[of _ 0])
    then have ok: "\<And>x. destroy_node C (calls s) n True = Inl x \<Longrightarrow> x = ResourceNotFoundError"
      by (simp add: survives_def)
    have k': "k' < length ns" using Cons.prems(1) Suc by simp
    have rest: "fst (cleanup_nodes C ns s') = Inl e \<and>
                calls (snd (cleanup_nodes C ns s')) =
                  calls s @ take (Suc k) (map (\<lambda>n. DestroyNode n True) (n # ns))"
      if c: "calls s' = calls s @ [DestroyNode n True]" for s'
    proof -
      have a: "\<forall>j<k'. survives C (calls s' @ take j (map (\<lambda>n. DestroyNode n True) ns))
                   (map (\<lambda>n. DestroyNode n True) ns ! j)"
      proof (intro allI impI)
        fix j assume "j < k'"
        then have "Suc j < k" using Suc by simp
        with Cons.prems(2) have "survives C
            (calls s @ take (Suc j) (map (\<lambda>n. DestroyNode n True) (n # ns)))
            (map (\<lambda>n. DestroyNode n True) (n # ns) ! Suc j)" by blast
        then show "survives C (calls s' @ take j (map (\<lambda>n. DestroyNode n True) ns))
                   (map (\<lambda>n. DestroyNode n True) ns ! j)"
          by (simp add: c)
      qed
      have b: "raises C (calls s' @ take k' (map (\<lambda>n. DestroyNode n True) ns))
             (map (\<lambda>n. DestroyNode n True) ns ! k') e"
        using Cons.prems(3) Suc by (simp add: c)
      from Cons.IH[OF k' a b Cons.prems(4)] show ?thesis
        by (simp add: c Suc)
    qed
    show ?thesis
    proof (cases "destroy_node C (calls s) n True")
      case (Inl x)
      with ok have "x = ResourceNotFoundError" by simp
      with Inl show ?thesis
        using rest[of "log DEBUG ''No test instance to delete''
                 (issue (DestroyNode n True) (log INFO (''Deleting test instance: '' @ node_name n) s))"]
        by (simp add: Let_def)
    next
      case (Inr b)
      then show ?thesis
        using rest[of "log WARNING ''Failed to delete test instance''
                 (issue (DestroyNode n True) (log INFO (''Deleting test instance: '' @ node_name n) s))"]
              rest[of "issue (DestroyNode n True) (log INFO (''Deleting test instance: '' @ node_name n) s)"]
        by (simp add: Let_def)
    qed
  qed
qed

lemma cleanup_images_abort:
  assumes "k < length gs"
      and "\<forall>j<k. survives C (calls s @ take j (map ImageDelete gs))
                   (map ImageDelete gs ! j)"
      and "raises C (calls s @ take k (map ImageDelete gs))
             (map ImageDelete gs ! k) e"
      and "e \<noteq> ResourceNotFoundError"
  shows "fst (cleanup_images C gs s) = Inl e \<and>
         calls (snd (cleanup_images C gs s)) =
           calls s @ take (Suc k) (map ImageDelete gs)"
  using assms
proof (induction gs arbitrary: k s)
  case Nil
  then show ?case by simp
next
  case (Cons n gs)
  show ?case
  proof (cases k)
    case 0
    with Cons.prems(3) have "image_delete C (calls s) n = Inl e"
      by (simp add: raises_def)
    with Cons.prems(4) 0 show ?thesis by (simp add: Let_def)
  next
    case (Suc k')
    from Cons.prems(2) Suc have "survives C (calls s) (ImageDelete n)"
      by (auto dest: spec[of _ 0])
    then have ok: "\<And>x. image_delete C (calls s) n = Inl x \<Longrightarrow> x = ResourceNotFoundError"
      by (simp add: survives_def)
    have k': "k' < length gs" using Cons.prems(1) Suc by simp
    have rest: "fst (cleanup_images C gs s') = Inl e \<and>
                calls (snd (cleanup_images C gs s')) =
                  calls s @ take (Suc k) (map ImageDelete (n # gs))"
      if c: "calls s' = calls s @ [ImageDelete n]" for s'
    proof -
      have a: "\<forall>j<k'. survives C (calls s' @ take j (map ImageDelete gs))
                   (map ImageDelete gs ! j)"
      proof (intro allI impI)
        fix j assume "j < k'"
        then have "Suc j < k" using Suc by simp
        with Cons.prems(2) have "survives C
            (calls s @ take (Suc j) (map ImageDelete (n # gs)))
            (map ImageDelete (n # gs) ! Suc j)" by blast
        then show "survives C (calls s' @ take j (map ImageDelete gs))
                   (map ImageDelete gs ! j)"
          by (simp add: c)
      qed
      have b: "raises C (calls s' @ take k' (map ImageDelete gs))
             (map ImageDelete gs ! k') e"
        using Cons.prems(3) Suc by (simp add: c)
      from Cons.IH[OF k' a b Cons.prems(4)] show ?thesis
        by (simp add: c Suc)
    qed
    show ?thesis
    proof (cases "image_delete C (calls s) n")
      case (Inl x)
      with ok have "x = ResourceNotFoundError" by simp
      with Inl show ?thesis
        using rest[of "log DEBUG ''No test image to delete''
                 (issue (ImageDelete n) (log INFO (''Deleting test image: '' @ image_name n) s))"]
        by (simp add: Let_def)
    next
      case (Inr b)
      then show ?thesis
        using rest[of "log WARNING ''Failed to delete test image''
                 (issue (ImageDelete n) (log INFO (''Deleting test image: '' @ image_name n) s))"]
              rest[of "issue (ImageDelete n) (log INFO (''Deleting test image: '' @ image_name n) s)"]
        by (simp add: Let_def)
    qed
  qed
qed


lemma cleanup_nodes_survive:
  "\<forall>j<length ns. survives C (calls s @ take j (map (\<lambda>n. DestroyNode n True) ns))
                   (map (\<lambda>n. DestroyNode n True) ns ! j) \<Longrightarrow>
   fst (cleanup_nodes C ns s) = Inr ()"
proof (induction ns arbitrary: s)
  case Nil
  then show ?case by simp
next
  case (Cons n ns)
  from Cons.prems have "survives C (calls s) (DestroyNode n True)"
    by (auto dest: spec[of _ 0])
  then have ok: "\<And>x. destroy_node C (calls s) n True = Inl x \<Longrightarrow> x = ResourceNotFoundError"
    by (simp add: survives_def)
  have rest: "fst (cleanup_nodes C ns s') = Inr ()"
    if c: "calls s' = calls s @ [DestroyNode n True]" for s'
  proof (rule Cons.IH, intro allI impI)
    fix j assume "j < length ns"
    then have "Suc j < length (n # ns)" by simp
    with Cons.prems have "survives C
        (calls s @ take (Suc j) (map (\<lambda>n. DestroyNode n True) (n # ns)))
        (map (\<lambda>n. DestroyNode n True) (n # ns) ! Suc j)" by blast
    then show "survives C (calls s' @ take j (map (\<lambda>n. DestroyNode n True) ns))
                 (map (\<lambda>n. DestroyNode n True) ns ! j)"
      by (simp add: c)
  qed
  show ?case
  proof (cases "destroy_node C (calls s) n True")
    case (Inl x)
    with ok have "x = ResourceNotFoundError" by simp
    with Inl show ?thesis
      using rest[of "log DEBUG ''No test instance to delete''
               (issue (DestroyNode n True) (log INFO (''Deleting test instance: '' @ node_name n) s))"]
      by (simp add: Let_def)
  next
    case (Inr b)
    then show ?thesis
      using rest[of "log WARNING ''Failed to delete test instance''
               (issue (DestroyNode n True) (log INFO (''Deleting test instance: '' @ node_name n) s))"]
            rest[of "issue (DestroyNode n True) (log INFO (''Deleting test instance: '' @ node_name n) s)"]
      by (simp add: Let_def)
  qed
qed

lemma cleanup_abort:
  assumes k: "k < length (cleanup_calls s)"
      and sv: "\<forall>j<k. survives C (calls s @ take j (cleanup_calls s)) (cleanup_calls s ! j)"
      and rs: "raises C (calls s @ take k (cleanup_calls s)) (cleanup_calls s ! k) e"
      and ne: "e \<noteq> ResourceNotFoundError"
  shows "fst (cleanup C s) = Inl e \<and>
         calls (snd (cleanup C s)) = calls s @ take (Suc k) (cleanup_calls s)"
proof -
  let ?A = "map (\<lambda>n. DestroyNode n True) (nodes s)"
  let ?B = "map ImageDelete (gce_images s)"
  have cc: "cleanup_calls s = ?A @ ?B" by (simp add: cleanup_calls_def)
  obtain r1 s1 where n: "cleanup_nodes C (nodes s) s = (r1, s1)" by force
  show ?thesis
  proof (cases "k < length (nodes s)")
    case True
    have a: "\<forall>j<k. survives C (calls s @ take j ?A) (?A ! j)"
    proof (intro allI impI)
      fix j assume j: "j < k"
      with sv have "survives C (calls s @ take j (?A @ ?B)) ((?A @ ?B) ! j)"
        unfolding cc by blast
      with j True show "survives C (calls s @ take j ?A) (?A ! j)"
        by (simp add: nth_append)
    qed
    have b: "raises C (calls s @ take k ?A) (?A ! k) e"
      using rs True unfolding cc by (simp add: nth_append)
    from cleanup_nodes_abort[OF True a b ne] n
    have "r1 = Inl e" "calls s1 = calls s @ take (Suc k) ?A" by simp_all
    with n True show ?thesis
      by (simp add: cleanup_def cc)
  next
    case False
    define m where "m = length (nodes s)"
    define k' where "k' = k - m"
    have km: "k = m + k'" using False by (simp add: m_def k'_def)
    have lenA: "length ?A = m" by (simp add: m_def)
    have a: "\<forall>j<length (nodes s). survives C (calls s @ take j ?A) (?A ! j)"
    proof (intro allI impI)
      fix j assume j: "j < length (nodes s)"
      with False have "j < k" by simp
      with sv have "survives C (calls s @ take j (?A @ ?B)) ((?A @ ?B) ! j)"
        unfolding cc by blast
      with j show "survives C (calls s @ take j ?A) (?A ! j)"
        by (simp add: nth_append)
    qed
    from cleanup_nodes_survive[OF a] n have r1: "r1 = Inr ()" by simp
    from cleanup_nodes_returns[of C "nodes s" s "()"] n r1
    have c1: "calls s1 = calls s @ ?A" by simp
    from cleanup_nodes_keeps[of C "nodes s" s] n
    have g1: "gce_images s1 = gce_images s" by simp
    from n r1 have im: "cleanup C s = cleanup_images C (gce_images s) s1"
      by (simp add: cleanup_def g1)
    have k'lt: "k' < length (gce_images s)"
      using k km unfolding cc by (simp add: m_def)
    have a': "\<forall>j<k'. survives C (calls s1 @ take j ?B) (?B ! j)"
    proof (intro allI impI)
      fix j assume j: "j < k'"
      then have "m + j < k" using km by simp
      with sv have "survives C (calls s @ take (m + j) (?A @ ?B)) ((?A @ ?B) ! (m + j))"
        unfolding cc by blast
      then show "survives C (calls s1 @ take j ?B) (?B ! j)"
        using lenA by (simp add: c1 nth_append)
    qed
    have b': "raises C (calls s1 @ take k' ?B) (?B ! k') e"
      using rs lenA unfolding cc km by (simp add: c1 nth_append)
    from cleanup_images_abort[OF k'lt a' b' ne]
    have "fst (cleanup C s) = Inl e"
         "calls (snd (cleanup C s)) = calls s1 @ take (Suc k') ?B"
      unfolding im by simp_all
    then show ?thesis
      using lenA unfolding cc km by (simp add: c1)
  qed
qed

text \<open>
  C1. After \<open>cleanup\<close> the resource lists should be empty, each recorded instance having
  had one \<open>destroy_node\<close> call (with \<open>destroy_boot_disk=True\<close>) and each recorded image one
  \<open>delete\<close> call. On the state of \<open>test_cleanup\<close>, with a provider on which every call
  succeeds, \<open>cleanup\<close> returns and issues exactly these four calls, one for each resource,
  but both lists keep their two elements: the method never clears \<open>self.nodes\<close> or
  \<open>self.gce_images\<close>, where the test asserts that both have length 0.
\<close>

theorem cleanup_keeps_resource_lists:
  "fst (cleanup mock_compute two_each) = Inr () \<and>
   calls (snd (cleanup mock_compute two_each)) =
     [DestroyNode \<lparr>node_name = ''node-1'', public_ips = []\<rparr> True,
      DestroyNode \<lparr>node_name = ''node-2'', public_ips = []\<rparr> True,
      ImageDelete \<lparr>image_name = ''gce-image-1''\<rparr>,
      ImageDelete \<lparr>image_name = ''gce-image-2''\<rparr>] \<and>
   length (nodes (snd (cleanup mock_compute two_each))) = 2 \<and>
   length (gce_images (snd (cleanup mock_compute two_each))) = 2"
  by (simp add: cleanup_def mock_compute_def two_each_def init_def Let_def issue_def log_def)

text \<open>
  C2, as stated: \<open>cleanup\<close> propagates no exception, whatever the provider does. It does
  propagate every exception other than \<open>ResourceNotFoundError\<close>: when \<open>destroy_node\<close>
  raises another error on the first instance, \<open>cleanup\<close> ends with that error, and the
  second instance and both images are never processed.
\<close>

theorem cleanup_propagates_counterexample:
  "fst (cleanup quota_compute two_each) = Inl (OtherError ''quota'') \<and>
   calls (snd (cleanup quota_compute two_each)) =
     [DestroyNode \<lparr>node_name = ''node-1'', public_ips = []\<rparr> True]"
  by (simp add: cleanup_def quota_compute_def mock_compute_def two_each_def init_def Let_def)

text \<open>
  C2, amended: \<open>cleanup\<close> never propagates \<open>ResourceNotFoundError\<close>; when every destroy
  and delete call on a recorded resource either returns (true or false) or raises
  \<open>ResourceNotFoundError\<close>, \<open>cleanup\<close> returns normally, having issued one destroy call
  for each recorded instance and then one delete call for each recorded image, in the
  order of the lists. Any other exception is not caught: when the calls before the
  \<open>k\<close>-th one return or raise \<open>ResourceNotFoundError\<close> and the \<open>k\<close>-th call raises another
  exception, \<open>cleanup\<close> ends with that exception and that call is the last it issues, so
  the resources after it are not processed; and an exception that leaves \<open>cleanup\<close> is
  always the one raised by the last call it issued.
\<close>

theorem cleanup_error_policy:
  "fst (cleanup C s) \<noteq> Inl ResourceNotFoundError \<and>
   ((\<forall>tr. \<forall>n \<in> set (nodes s). \<forall>e. destroy_node C tr n True = Inl e \<longrightarrow> e = ResourceNotFoundError) \<and>
    (\<forall>tr. \<forall>g \<in> set (gce_images s). \<forall>e. image_delete C tr g = Inl e \<longrightarrow> e = ResourceNotFoundError)
    \<longrightarrow> fst (cleanup C s) = Inr () \<and>
        calls (snd (cleanup C s)) =
          calls s @ map (\<lambda>n. DestroyNode n True) (nodes s) @ map ImageDelete (gce_images s)) \<and>
   (fst (cleanup C s) = Inl e \<longrightarrow>
      (\<exists>tr c. calls (snd (cleanup C s)) = tr @ [c] \<and> raises C tr c e)) \<and>
   (k < length (cleanup_calls s) \<and>
    (\<forall>j<k. survives C (calls s @ take j (cleanup_calls s)) (cleanup_calls s ! j)) \<and>
    raises C (calls s @ take k (cleanup_calls s)) (cleanup_calls s ! k) x \<and>
    x \<noteq> ResourceNotFoundError \<longrightarrow>
      fst (cleanup C s) = Inl x \<and>
      calls (snd (cleanup C s)) = calls s @ take (Suc k) (cleanup_calls s))"
  using cleanup_not_gone[of C s] cleanup_total[of s C] cleanup_returns[of C s "()"]
        cleanup_raises[of C s e] cleanup_abort[of k s C x]
  by blast

theorem cleanup_error_policy_witness:
  "fst (cleanup gone_compute two_each) = Inr () \<and>
   calls (snd (cleanup gone_compute two_each)) =
     [DestroyNode \<lparr>node_name = ''node-1'', public_ips = []\<rparr> True,
      DestroyNode \<lparr>node_name = ''node-2'', public_ips = []\<rparr> True,
      ImageDelete \<lparr>image_name = ''gce-image-1''\<rparr>,
      ImageDelete \<lparr>image_name = ''gce-image-2''\<rparr>] \<and>
   (\<exists>tr c. calls (snd (cleanup quota_compute two_each)) = tr @ [c] \<and>
           raises quota_compute tr c (OtherError ''quota'')) \<and>
   fst (cleanup image_quota_compute two_each) = Inl (OtherError ''quota'') \<and>
   calls (snd (cleanup image_quota_compute two_each)) =
     [DestroyNode \<lparr>node_name = ''node-1'', public_ips = []\<rparr> True,
      DestroyNode \<lparr>node_name = ''node-2'', public_ips = []\<rparr> True,
      ImageDelete \<lparr>image_name = ''gce-image-1''\<rparr>]"
proof -
  have n: "\<forall>tr. \<forall>n \<in> set (nodes two_each). \<forall>e.
             destroy_node gone_compute tr n True = Inl e \<longrightarrow> e = ResourceNotFoundError"
    by (simp add: gone_compute_def mock_compute_def two_each_def init_def)
  have g: "\<forall>tr. \<forall>g \<in> set (gce_images two_each). \<forall>e.
             image_delete gone_compute tr g = Inl e \<longrightarrow> e = ResourceNotFoundError"
    by (simp add: gone_compute_def mock_compute_def two_each_def init_def)
  from cleanup_error_policy[of gone_compute two_each] n g
  have "fst (cleanup gone_compute two_each) = Inr () \<and>
        calls (snd (cleanup gone_compute two_each)) =
          calls two_each @ map (\<lambda>n. DestroyNode n True) (nodes two_each) @
          map ImageDelete (gce_images two_each)"
    by blast
  then have a: "fst (cleanup gone_compute two_each) = Inr () \<and>
      calls (snd (cleanup gone_compute two_each)) =
        [DestroyNode \<lparr>node_name = ''node-1'', public_ips = []\<rparr> True,
         DestroyNode \<lparr>node_name = ''node-2'', public_ips = []\<rparr> True,
         ImageDelete \<lparr>image_name = ''gce-image-1''\<rparr>,
         ImageDelete \<lparr>image_name = ''gce-image-2''\<rparr>]"
    by (simp add: two_each_def init_def)
  have q: "fst (cleanup quota_compute two_each) = Inl (OtherError ''quota'')"
    by (simp add: cleanup_def quota_compute_def mock_compute_def two_each_def init_def Let_def)
  from cleanup_error_policy[of quota_compute two_each "OtherError ''quota''"] q
  have b: "\<exists>tr c. calls (snd (cleanup quota_compute two_each)) = tr @ [c] \<and>
               raises quota_compute tr c (OtherError ''quota'')"
    by blast
  have cc: "cleanup_calls two_each =
     [DestroyNode \<lparr>node_name = ''node-1'', public_ips = []\<rparr> True,
      DestroyNode \<lparr>node_name = ''node-2'', public_ips = []\<rparr> True,
      ImageDelete \<lparr>image_name = ''gce-image-1''\<rparr>,
      ImageDelete \<lparr>image_name = ''gce-image-2''\<rparr>]"
    by (simp add: cleanup_calls_def two_each_def init_def)
  have ct: "calls two_each = []"
    by (simp add: two_each_def init_def)
  have k: "2 < length (cleanup_calls two_each)" by (simp add: cc)
  have sv: "\<forall>j<2. survives image_quota_compute (calls two_each @ take j (cleanup_calls two_each))
                     (cleanup_calls two_each ! j)"
  proof (intro allI impI)
    fix j :: nat assume "j < 2"
    then consider "j = 0" | "j = 1" by linarith
    then show "survives image_quota_compute (calls two_each @ take j (cleanup_calls two_each))
                 (cleanup_calls two_each ! j)"
      by cases (simp_all add: cc survives_def image_quota_compute_def gone_compute_def mock_compute_def)
  qed
  have rs: "raises image_quota_compute (calls two_each @ take 2 (cleanup_calls two_each))
              (cleanup_calls two_each ! 2) (OtherError ''quota'')"
    by (simp add: cc raises_def image_quota_compute_def)
  have ne: "OtherError ''quota'' \<noteq> ResourceNotFoundError" by simp
  from cleanup_error_policy[of image_quota_compute two_each _ 2 "OtherError ''quota''"] k sv rs ne
  have "fst (cleanup image_quota_compute two_each) = Inl (OtherError ''quota'') \<and>
        calls (snd (cleanup image_quota_compute two_each)) =
          calls two_each @ take (Suc 2) (cleanup_calls two_each)"
    by blast
  then have c: "fst (cleanup image_quota_compute two_each) = Inl (OtherError ''quota'') \<and>
      calls (snd (cleanup image_quota_compute two_each)) =
        [DestroyNode \<lparr>node_name = ''node-1'', public_ips = []\<rparr> True,
         DestroyNode \<lparr>node_name = ''node-2'', public_ips = []\<rparr> True,
         ImageDelete \<lparr>image_name = ''gce-image-1''\<rparr>]"
    by (simp add: cc ct)
  from a b c show ?thesis by blast
qed

section \<open>Properties of ssh_connection_works\<close>

lemma retries_Suc:
  "retries (Suc k) ip username keypath interval =
   failed_attempt ip username keypath interval @ retries k ip username keypath interval"
  by (simp add: retries_def)

lemma retries_0: "retries 0 ip username keypath interval = []"
  by (simp add: retries_def)

lemma ssh_loop_keeps:
  "nodes (snd (ssh_loop connect username ip keypath attempts interval attempt0 s)) = nodes s \<and>
   gce_images (snd (ssh_loop connect username ip keypath attempts interval attempt0 s)) = gce_images s"
proof (induction connect username ip keypath attempts interval attempt0 s rule: ssh_loop.induct)
  case (1 connect username ip keypath attempts interval attempt0 s)
  show ?case
    apply (subst (1 2) ssh_loop.simps)
    using 1
    apply (auto simp: Let_def split: sum.splits)
    done
qed

lemma ssh_loop_all_fail:
  assumes "0 \<le> interval"
      and "nat (max 1 (attempts - attempt0)) = Suc n"
      and "\<forall>j<Suc n. fails_at connect (calls s @ retries j ip username keypath interval) ip username keypath"
  shows "fst (ssh_loop connect username ip keypath attempts interval attempt0 s) = Inr False \<and>
         calls (snd (ssh_loop connect username ip keypath attempts interval attempt0 s)) =
           calls s @ retries n ip username keypath interval @ last_attempt ip username keypath"
  using assms
proof (induction n arbitrary: attempt0 s)
  case 0
  from "0.prems"(3) have f: "fails_at connect (calls s) ip username keypath"
    by (simp add: retries_0)
  from "0.prems"(2) have stop: "attempt0 + 1 \<ge> attempts" by linarith
  show ?case
    apply (subst (1 2) ssh_loop.simps)
    using f stop
    apply (auto simp: Let_def fails_at_def retries_0 last_attempt_def split: sum.splits)
    done
next
  case (Suc n)
  let ?s' = "issue SshClose (issue (Sleep interval)
     (log DEBUG (''SSH connection failed with '' @ [CHR 0x22] @
        message (projl (connect (calls s) ip username keypath)) @ [CHR 0x22])
        (issue (SshConnect ip username keypath) s)))"
  from Suc.prems(3) have f: "fails_at connect (calls s) ip username keypath"
    using retries_0 by (metis append_Nil2 zero_less_Suc)
  from Suc.prems(2) have go: "\<not> attempt0 + 1 \<ge> attempts" and
     nxt: "nat (max 1 (attempts - (attempt0 + 1))) = Suc n" by linarith+
  have c': "calls ?s' = calls s @ failed_attempt ip username keypath interval"
    by (simp add: failed_attempt_def)
  have "\<forall>j<Suc n. fails_at connect (calls ?s' @ retries j ip username keypath interval) ip username keypath"
  proof (intro allI impI)
    fix j assume "j < Suc n"
    then have "Suc j < Suc (Suc n)" by simp
    with Suc.prems(3) have "fails_at connect (calls s @ retries (Suc j) ip username keypath interval) ip username keypath"
      by blast
    then show "fails_at connect (calls ?s' @ retries j ip username keypath interval) ip username keypath"
      by (simp add: retries_Suc failed_attempt_def)
  qed
  from Suc.IH[OF Suc.prems(1) nxt this]
  have ih: "fst (ssh_loop connect username ip keypath attempts interval (attempt0 + 1) ?s') = Inr False \<and>
      calls (snd (ssh_loop connect username ip keypath attempts interval (attempt0 + 1) ?s')) =
      calls s @ retries (Suc n) ip username keypath interval @ last_attempt ip username keypath"
    by (simp add: retries_Suc failed_attempt_def)
  show ?case
    apply (subst (1 2) ssh_loop.simps)
    using f go Suc.prems(1) ih
    apply (auto simp: Let_def fails_at_def split: sum.splits)
    done
qed


lemma ssh_loop_first_success:
  assumes "0 \<le> interval"
      and "int k < max 1 (attempts - attempt0)"
      and "\<forall>j<k. fails_at connect (calls s @ retries j ip username keypath interval) ip username keypath"
      and "connect (calls s @ retries k ip username keypath interval) ip username keypath = Inr u"
  shows "fst (ssh_loop connect username ip keypath attempts interval attempt0 s) = Inr True \<and>
         calls (snd (ssh_loop connect username ip keypath attempts interval attempt0 s)) =
           calls s @ retries k ip username keypath interval @ last_attempt ip username keypath"
  using assms
proof (induction k arbitrary: attempt0 s)
  case 0
  then show ?case
    by (subst (1 2) ssh_loop.simps) (simp add: Let_def retries_0 last_attempt_def)
next
  case (Suc k)
  let ?s' = "issue SshClose (issue (Sleep interval)
     (log DEBUG (''SSH connection failed with '' @ [CHR 0x22] @
        message (projl (connect (calls s) ip username keypath)) @ [CHR 0x22])
        (issue (SshConnect ip username keypath) s)))"
  from Suc.prems(3) have f: "fails_at connect (calls s) ip username keypath"
    using retries_0 by (metis append_Nil2 zero_less_Suc)
  from Suc.prems(2) have go: "\<not> attempt0 + 1 \<ge> attempts" and
     nxt: "int k < max 1 (attempts - (attempt0 + 1))" by linarith+
  have fs: "\<forall>j<k. fails_at connect (calls ?s' @ retries j ip username keypath interval) ip username keypath"
  proof (intro allI impI)
    fix j assume "j < k"
    then have "Suc j < Suc k" by simp
    with Suc.prems(3) have "fails_at connect (calls s @ retries (Suc j) ip username keypath interval) ip username keypath"
      by blast
    then show "fails_at connect (calls ?s' @ retries j ip username keypath interval) ip username keypath"
      by (simp add: retries_Suc failed_attempt_def)
  qed
  from Suc.prems(4) have ok: "connect (calls ?s' @ retries k ip username keypath interval) ip username keypath = Inr u"
    by (simp add: retries_Suc failed_attempt_def)
  from Suc.IH[OF Suc.prems(1) nxt fs ok]
  have ih: "fst (ssh_loop connect username ip keypath attempts interval (attempt0 + 1) ?s') = Inr True \<and>
      calls (snd (ssh_loop connect username ip keypath attempts interval (attempt0 + 1) ?s')) =
      calls s @ retries (Suc k) ip username keypath interval @ last_attempt ip username keypath"
    by (simp add: retries_Suc failed_attempt_def)
  show ?case
    apply (subst (1 2) ssh_loop.simps)
    using f go Suc.prems(1) ih
    apply (auto simp: Let_def fails_at_def split: sum.splits)
    done
qed

lemma ssh_loop_false_only:
  assumes "fst (ssh_loop connect username ip keypath attempts interval attempt0 s) = Inr False"
  shows "\<exists>n. nat (max 1 (attempts - attempt0)) = Suc n \<and>
         calls (snd (ssh_loop connect username ip keypath attempts interval attempt0 s)) =
           calls s @ retries n ip username keypath interval @ last_attempt ip username keypath \<and>
         (\<forall>j<Suc n. fails_at connect (calls s @ retries j ip username keypath interval) ip username keypath)"
  using assms
proof (induction connect username ip keypath attempts interval attempt0 s rule: ssh_loop.induct)
  case (1 connect username ip keypath attempts interval attempt0 s)
  let ?r = "connect (calls s) ip username keypath"
  from "1.prems" obtain e where e: "?r = Inl e" "retryable e"
    by (subst (asm) ssh_loop.simps) (auto simp: Let_def split: sum.splits if_splits)
  then have f: "fails_at connect (calls s) ip username keypath"
    by (simp add: fails_at_def)
  show ?case
  proof (cases "attempt0 + 1 \<ge> attempts")
    case True
    then have "nat (max 1 (attempts - attempt0)) = Suc 0" by simp
    moreover have "calls (snd (ssh_loop connect username ip keypath attempts interval attempt0 s)) =
       calls s @ retries 0 ip username keypath interval @ last_attempt ip username keypath"
      using e True by (subst ssh_loop.simps) (simp add: Let_def retries_0 last_attempt_def)
    ultimately show ?thesis using f by (auto simp: retries_0 intro!: exI[of _ 0])
  next
    case False
    let ?s' = "issue SshClose (issue (Sleep interval)
       (log DEBUG (''SSH connection failed with '' @ [CHR 0x22] @ message e @ [CHR 0x22])
          (issue (SshConnect ip username keypath) s)))"
    from "1.prems" e False have nonneg: "\<not> interval < 0"
      by (subst (asm) ssh_loop.simps) (auto simp: Let_def split: if_splits)
    have step: "ssh_loop connect username ip keypath attempts interval attempt0 s =
                ssh_loop connect username ip keypath attempts interval (attempt0 + 1) ?s'"
      using e False nonneg by (subst ssh_loop.simps) (simp add: Let_def)
    from "1.IH"[OF refl refl refl e(1) e(2) refl _ nonneg] False "1.prems" step
    obtain n where n: "nat (max 1 (attempts - (attempt0 + 1))) = Suc n"
      "calls (snd (ssh_loop connect username ip keypath attempts interval (attempt0 + 1) ?s')) =
         calls ?s' @ retries n ip username keypath interval @ last_attempt ip username keypath"
      "\<forall>j<Suc n. fails_at connect (calls ?s' @ retries j ip username keypath interval) ip username keypath"
      by auto
    from n(1) False have m: "nat (max 1 (attempts - attempt0)) = Suc (Suc n)" by linarith
    have c: "calls (snd (ssh_loop connect username ip keypath attempts interval attempt0 s)) =
       calls s @ retries (Suc n) ip username keypath interval @ last_attempt ip username keypath"
      using n(2) step by (simp add: retries_Suc failed_attempt_def)
    have "\<forall>j<Suc (Suc n). fails_at connect (calls s @ retries j ip username keypath interval) ip username keypath"
    proof (intro allI impI)
      fix j assume j: "j < Suc (Suc n)"
      show "fails_at connect (calls s @ retries j ip username keypath interval) ip username keypath"
      proof (cases j)
        case 0
        then show ?thesis using f by (simp add: retries_0)
      next
        case (Suc i)
        with j n(3) show ?thesis by (simp add: retries_Suc failed_attempt_def)
      qed
    qed
    with m c show ?thesis by blast
  qed
qed


lemma ssh_loop_true_only:
  assumes "fst (ssh_loop connect username ip keypath attempts interval attempt0 s) = Inr True"
  shows "\<exists>k. int k < max 1 (attempts - attempt0) \<and>
         calls (snd (ssh_loop connect username ip keypath attempts interval attempt0 s)) =
           calls s @ retries k ip username keypath interval @ last_attempt ip username keypath \<and>
         (\<forall>j<k. fails_at connect (calls s @ retries j ip username keypath interval) ip username keypath) \<and>
         connect (calls s @ retries k ip username keypath interval) ip username keypath = Inr ()"
  using assms
proof (induction connect username ip keypath attempts interval attempt0 s rule: ssh_loop.induct)
  case (1 connect username ip keypath attempts interval attempt0 s)
  let ?r = "connect (calls s) ip username keypath"
  show ?case
  proof (cases ?r)
    case (Inr u)
    then have "calls (snd (ssh_loop connect username ip keypath attempts interval attempt0 s)) =
       calls s @ retries 0 ip username keypath interval @ last_attempt ip username keypath"
      by (subst ssh_loop.simps) (simp add: Let_def retries_0 last_attempt_def)
    with Inr show ?thesis
      by (intro exI[of _ 0]) (simp add: retries_0)
  next
    case (Inl e)
    with "1.prems" have e: "retryable e" and go: "\<not> attempt0 + 1 \<ge> attempts" and nonneg: "\<not> interval < 0"
      by (subst (asm) ssh_loop.simps, auto simp: Let_def split: if_splits)+
    from Inl e have f: "fails_at connect (calls s) ip username keypath"
      by (simp add: fails_at_def)
    let ?s' = "issue SshClose (issue (Sleep interval)
       (log DEBUG (''SSH connection failed with '' @ [CHR 0x22] @ message e @ [CHR 0x22])
          (issue (SshConnect ip username keypath) s)))"
    have step: "ssh_loop connect username ip keypath attempts interval attempt0 s =
                ssh_loop connect username ip keypath attempts interval (attempt0 + 1) ?s'"
      using Inl e go nonneg by (subst ssh_loop.simps) (simp add: Let_def)
    from "1.IH"[OF refl refl refl Inl e refl go nonneg] "1.prems" step
    obtain k where k: "int k < max 1 (attempts - (attempt0 + 1))"
      "calls (snd (ssh_loop connect username ip keypath attempts interval (attempt0 + 1) ?s')) =
         calls ?s' @ retries k ip username keypath interval @ last_attempt ip username keypath"
      "\<forall>j<k. fails_at connect (calls ?s' @ retries j ip username keypath interval) ip username keypath"
      "connect (calls ?s' @ retries k ip username keypath interval) ip username keypath = Inr ()"
      by auto
    from k(1) go have m: "int (Suc k) < max 1 (attempts - attempt0)" by linarith
    have c: "calls (snd (ssh_loop connect username ip keypath attempts interval attempt0 s)) =
       calls s @ retries (Suc k) ip username keypath interval @ last_attempt ip username keypath"
      using k(2) step by (simp add: retries_Suc failed_attempt_def)
    have ok: "connect (calls s @ retries (Suc k) ip username keypath interval) ip username keypath = Inr ()"
      using k(4) by (simp add: retries_Suc failed_attempt_def)
    have "\<forall>j<Suc k. fails_at connect (calls s @ retries j ip username keypath interval) ip username keypath"
    proof (intro allI impI)
      fix j assume j: "j < Suc k"
      show "fails_at connect (calls s @ retries j ip username keypath interval) ip username keypath"
      proof (cases j)
        case 0
        then show ?thesis using f by (simp add: retries_0)
      next
        case (Suc i)
        with j k(3) show ?thesis by (simp add: retries_Suc failed_attempt_def)
      qed
    qed
    with m c ok show ?thesis by blast
  qed
qed

lemma ssh_connection_works_keeps:
  "nodes (snd (ssh_connection_works connect username ip keypath attempts interval s)) = nodes s \<and>
   gce_images (snd (ssh_connection_works connect username ip keypath attempts interval s)) = gce_images s"
  using ssh_loop_keeps[of connect username ip keypath attempts interval 0]
  by (simp add: ssh_connection_works_def)

lemma ssh_connection_works_all_fail:
  assumes "0 \<le> interval"
      and "\<forall>j < nat (max 1 attempts).
             fails_at connect (calls s @ retries j ip username keypath interval) ip username keypath"
  shows "fst (ssh_connection_works connect username ip keypath attempts interval s) = Inr False \<and>
         calls (snd (ssh_connection_works connect username ip keypath attempts interval s)) =
           calls s @ retries (nat (max 1 attempts) - 1) ip username keypath interval @
           last_attempt ip username keypath"
proof -
  obtain n where n: "nat (max 1 (attempts - 0)) = Suc n"
    by (cases "nat (max 1 (attempts - 0))") auto
  then have m: "nat (max 1 attempts) = Suc n" by simp
  show ?thesis
    unfolding ssh_connection_works_def
    using ssh_loop_all_fail[OF assms(1) n, of connect
            "log INFO (''Testing SSH connectivity to '' @ username @ ''@'' @ ip) s" ip username keypath]
          assms(2) m
    by simp
qed

lemma ssh_connection_works_first_success:
  assumes "0 \<le> interval"
      and "int k < max 1 attempts"
      and "\<forall>j<k. fails_at connect (calls s @ retries j ip username keypath interval) ip username keypath"
      and "connect (calls s @ retries k ip username keypath interval) ip username keypath = Inr ()"
  shows "fst (ssh_connection_works connect username ip keypath attempts interval s) = Inr True \<and>
         calls (snd (ssh_connection_works connect username ip keypath attempts interval s)) =
           calls s @ retries k ip username keypath interval @ last_attempt ip username keypath"
  unfolding ssh_connection_works_def
  using ssh_loop_first_success[of interval k attempts 0 connect
          "log INFO (''Testing SSH connectivity to '' @ username @ ''@'' @ ip) s" ip username keypath "()"]
        assms
  by simp

lemma ssh_connection_works_false_only:
  assumes "fst (ssh_connection_works connect username ip keypath attempts interval s) = Inr False"
  shows "calls (snd (ssh_connection_works connect username ip keypath attempts interval s)) =
           calls s @ retries (nat (max 1 attempts) - 1) ip username keypath interval @
           last_attempt ip username keypath \<and>
         (\<forall>j < nat (max 1 attempts).
            fails_at connect (calls s @ retries j ip username keypath interval) ip username keypath)"
  using ssh_loop_false_only[of connect username ip keypath attempts interval 0
          "log INFO (''Testing SSH connectivity to '' @ username @ ''@'' @ ip) s"] assms
  unfolding ssh_connection_works_def
  by auto

lemma ssh_connection_works_true_only:
  assumes "fst (ssh_connection_works connect username ip keypath attempts interval s) = Inr True"
  shows "\<exists>k. int k < max 1 attempts \<and>
         calls (snd (ssh_connection_works connect username ip keypath attempts interval s)) =
           calls s @ retries k ip username keypath interval @ last_attempt ip username keypath \<and>
         (\<forall>j<k. fails_at connect (calls s @ retries j ip username keypath interval) ip username keypath) \<and>
         connect (calls s @ retries k ip username keypath interval) ip username keypath = Inr ()"
  using ssh_loop_true_only[of connect username ip keypath attempts interval 0
          "log INFO (''Testing SSH connectivity to '' @ username @ ''@'' @ ip) s"] assms
  unfolding ssh_connection_works_def
  by auto

lemma length_retries: "length (retries k ip username keypath interval) = 3 * k"
  by (induction k) (simp_all add: retries_0 retries_Suc failed_attempt_def)

text \<open>
  C4, as stated: for every attempt budget, the probe returns false only after exactly
  \<open>attempts\<close> failed attempts. With a budget of 0 (or a negative one) the loop still makes
  one attempt before it compares the counter with the budget: on an instance that never
  accepts a connection the probe returns false after one connection attempt, not after
  none.
\<close>

theorem ssh_connection_works_zero_budget_counterexample:
  "fst (ssh_connection_works never_up ''fedora'' ''203.0.113.7'' ''/etc/gce.pem'' 0 10 init) = Inr False \<and>
   calls (snd (ssh_connection_works never_up ''fedora'' ''203.0.113.7'' ''/etc/gce.pem'' 0 10 init)) =
     [SshConnect ''203.0.113.7'' ''fedora'' ''/etc/gce.pem'', SshClose]"
  by (simp add: ssh_connection_works_def ssh_loop.simps never_up_def Let_def init_def)

text \<open>
  C4, amended. The probe returns true only at the first successful connection attempt,
  which is then the last call to \<open>connect\<close>: the calls it has issued are \<open>k\<close> failed
  attempts, each followed by a sleep of \<open>interval\<close>, and the successful one, with
  \<open>k < max 1 attempts\<close>. It returns false only after exactly \<open>max 1 attempts\<close> failed
  attempts (that is \<open>attempts\<close> of them for a budget of at least 1), with a sleep of
  \<open>interval\<close> after each but the last. And it does return: for a non-negative interval,
  true when the attempt after \<open>k < max 1 attempts\<close> failed ones succeeds, false when
  \<open>max 1 attempts\<close> attempts fail.
\<close>

theorem ssh_connection_works_attempts:
  "(fst (ssh_connection_works connect username ip keypath attempts interval s) = Inr True \<longrightarrow>
      (\<exists>k. int k < max 1 attempts \<and>
           calls (snd (ssh_connection_works connect username ip keypath attempts interval s)) =
             calls s @ retries k ip username keypath interval @ last_attempt ip username keypath \<and>
           (\<forall>j<k. fails_at connect (calls s @ retries j ip username keypath interval) ip username keypath) \<and>
           connect (calls s @ retries k ip username keypath interval) ip username keypath = Inr ())) \<and>
   (fst (ssh_connection_works connect username ip keypath attempts interval s) = Inr False \<longrightarrow>
      calls (snd (ssh_connection_works connect username ip keypath attempts interval s)) =
        calls s @ retries (nat (max 1 attempts) - 1) ip username keypath interval @
        last_attempt ip username keypath \<and>
      (\<forall>j < nat (max 1 attempts).
         fails_at connect (calls s @ retries j ip username keypath interval) ip username keypath)) \<and>
   (0 \<le> interval \<and> int k < max 1 attempts \<and>
    (\<forall>j<k. fails_at connect (calls s @ retries j ip username keypath interval) ip username keypath) \<and>
    connect (calls s @ retries k ip username keypath interval) ip username keypath = Inr () \<longrightarrow>
      fst (ssh_connection_works connect username ip keypath attempts interval s) = Inr True) \<and>
   (0 \<le> interval \<and>
    (\<forall>j < nat (max 1 attempts).
       fails_at connect (calls s @ retries j ip username keypath interval) ip username keypath) \<longrightarrow>
      fst (ssh_connection_works connect username ip keypath attempts interval s) = Inr False)"
  using ssh_connection_works_true_only[of connect username ip keypath attempts interval s]
        ssh_connection_works_false_only[of connect username ip keypath attempts interval s]
        ssh_connection_works_first_success[of interval k attempts connect s ip username keypath]
        ssh_connection_works_all_fail[of interval attempts connect s ip username keypath]
  by blast

theorem ssh_connection_works_attempts_witness:
  "fst (ssh_connection_works up_after_six_calls ''fedora'' ''203.0.113.7'' ''/etc/gce.pem'' 3 10 init) = Inr True \<and>
   fst (ssh_connection_works never_up ''fedora'' ''203.0.113.7'' ''/etc/gce.pem'' 2 10 init) = Inr False \<and>
   calls (snd (ssh_connection_works never_up ''fedora'' ''203.0.113.7'' ''/etc/gce.pem'' 2 10 init)) =
     [SshConnect ''203.0.113.7'' ''fedora'' ''/etc/gce.pem'', Sleep 10, SshClose,
      SshConnect ''203.0.113.7'' ''fedora'' ''/etc/gce.pem'', SshClose]"
proof -
  have i: "(0::int) \<le> 10" by simp
  have k: "int 2 < max 1 3" by simp
  have f: "\<forall>j<2. fails_at up_after_six_calls
             (calls init @ retries j ''203.0.113.7'' ''fedora'' ''/etc/gce.pem'' 10)
             ''203.0.113.7'' ''fedora'' ''/etc/gce.pem''"
    by (auto simp: fails_at_def up_after_six_calls_def length_retries init_def)
  have u: "up_after_six_calls (calls init @ retries 2 ''203.0.113.7'' ''fedora'' ''/etc/gce.pem'' 10)
             ''203.0.113.7'' ''fedora'' ''/etc/gce.pem'' = Inr ()"
    by (simp add: up_after_six_calls_def length_retries init_def)
  have n: "\<forall>j < nat (max 1 2). fails_at never_up
             (calls init @ retries j ''203.0.113.7'' ''fedora'' ''/etc/gce.pem'' 10)
             ''203.0.113.7'' ''fedora'' ''/etc/gce.pem''"
    by (simp add: fails_at_def never_up_def)
  from ssh_connection_works_attempts[of up_after_six_calls "''fedora''" "''203.0.113.7''" "''/etc/gce.pem''"
         3 10 init 2] i k f u
  have t: "fst (ssh_connection_works up_after_six_calls ''fedora'' ''203.0.113.7'' ''/etc/gce.pem'' 3 10 init) = Inr True"
    by blast
  from ssh_connection_works_attempts[of never_up "''fedora''" "''203.0.113.7''" "''/etc/gce.pem''"
         2 10 init 0] i n
  have "fst (ssh_connection_works never_up ''fedora'' ''203.0.113.7'' ''/etc/gce.pem'' 2 10 init) = Inr False \<and>
        calls (snd (ssh_connection_works never_up ''fedora'' ''203.0.113.7'' ''/etc/gce.pem'' 2 10 init)) =
          calls init @ retries (nat (max 1 2) - 1) ''203.0.113.7'' ''fedora'' ''/etc/gce.pem'' 10 @
          last_attempt ''203.0.113.7'' ''fedora'' ''/etc/gce.pem''"
    by blast
  with t show ?thesis
    by (simp add: init_def retries_def failed_attempt_def last_attempt_def)
qed

section \<open>Properties of test\<close>

lemma ssh_connection_works_keepsD:
  "ssh_connection_works connect username ip keypath attempts interval s = (r, s') \<Longrightarrow>
   nodes s' = nodes s \<and> gce_images s' = gce_images s"
  using ssh_connection_works_keeps[of connect username ip keypath attempts interval s] by simp

lemma test_records_image:
  assumes "gce_image_name_of (object_name img) = Inr name"
      and "url = STORAGE_URL @ ''/'' @ GCE_STORAGE_CONTAINER cfg @ ''/'' @ object_name img"
      and "ex_create_image C (calls s) name url True = Inr gi"
  shows "gce_images (snd (test cfg C connect img s)) = gce_images s @ [gi]"
  using assms
  by (auto simp: test_def Let_def split: sum.splits prod.splits dest!: ssh_connection_works_keepsD)

lemma test_records_node:
  assumes "gce_image_name_of (object_name img) = Inr name"
      and "url = STORAGE_URL @ ''/'' @ GCE_STORAGE_CONTAINER cfg @ ''/'' @ object_name img"
      and "ex_create_image C (calls s) name url True = Inr gi"
      and "h1 = calls s @ [ExCreateImage name url True]"
      and "list_locations C h1 = Inr (loc # locs)"
      and "list_sizes C (h1 @ [ListLocations]) loc = Inr sizes"
      and "cheapest_size sizes = Inr sz"
      and "create_node C (h1 @ [ListLocations, ListSizes loc]) (image_name gi) sz gi loc = Inr nd"
  shows "nodes (snd (test cfg C connect img s)) = nodes s @ [nd]"
  using assms
  by (auto simp: test_def Let_def index0_def split: sum.splits prod.splits dest!: ssh_connection_works_keepsD)

lemma test_reaches_probe:
  assumes "gce_image_name_of (object_name img) = Inr name"
      and "url = STORAGE_URL @ ''/'' @ GCE_STORAGE_CONTAINER cfg @ ''/'' @ object_name img"
      and "ex_create_image C (calls s) name url True = Inr gi"
      and "h1 = calls s @ [ExCreateImage name url True]"
      and "list_locations C h1 = Inr (loc # locs)"
      and "list_sizes C (h1 @ [ListLocations]) loc = Inr sizes"
      and "cheapest_size sizes = Inr sz"
      and "create_node C (h1 @ [ListLocations, ListSizes loc]) (image_name gi) sz gi loc = Inr nd"
      and "h2 = h1 @ [ListLocations, ListSizes loc, CreateNode (image_name gi) sz gi loc]"
      and "wait_until_running C h2 [nd] 10 600 = Inr ()"
      and "index0 (str_split ''@'' (GCE_EMAIL cfg)) = Inr username"
      and "public_ips nd = ip # ips"
      and "h3 = h2 @ [WaitUntilRunning [nd] 10 600]"
  shows "\<exists>sP. test cfg C connect img s =
           (case ssh_connection_works connect username ip (GCE_KEYPATH cfg) 60 60 sP of
              (Inl e, s14) \<Rightarrow> (Inl e, s14)
            | (Inr works, s14) \<Rightarrow>
                if \<not> works then
                  (Inl (SSHConnectionError
                         (''Cannot SSH to test instance '' @ node_name nd @ ''. '' @
                          ''Perhaps the image is improperly '' @
                          ''configured for GCE.'')),
                   s14)
                else
                  (Inr (),
                   log INFO (''Image '' @ object_name img @ '' passed a basic sanity test'') s14))
         \<and> calls sP = h3"
  using assms
  apply (simp add: test_def Let_def index0_def)
  apply (rule exI, rule conjI, rule refl)
  apply simp
  done

lemma fake_name: "gce_image_name_of (object_name fake_image) = Inr ''fake-img-1-2-3''"
  by (simp add: gce_image_name_of_def fake_image_def index0_def non_alnum_def alnum_def)

lemma mock_cheapest:
  "cheapest_size
     [\<lparr>size_name = ''n1-standard-1'', price = 1.2\<rparr>,
      \<lparr>size_name = ''g1-small'', price = 0.1\<rparr>,
      \<lparr>size_name = ''n1-highmem-16'', price = 999\<rparr>,
      \<lparr>size_name = ''f1-micro'', price = 0.01\<rparr>,
      \<lparr>size_name = ''f1-mini'', price = 0.011\<rparr>] = Inr \<lparr>size_name = ''f1-micro'', price = 0.01\<rparr>"
  by (simp add: cheapest_size_def index0_def)

lemma mock_user: "index0 (str_split ''@'' (GCE_EMAIL mock_config)) = Inr ''fedimg''"
  by (simp add: mock_config_def index0_def)

lemma fake_url:
  "''https://storage.googleapis.com/fedimg-images/fake-img-1.2-3.tar.gz'' =
   STORAGE_URL @ ''/'' @ GCE_STORAGE_CONTAINER mock_config @ ''/'' @ object_name fake_image"
  by (simp add: STORAGE_URL_def mock_config_def fake_image_def)

text \<open>
  C3. When the registration of the image succeeds, the image is in \<open>gce_images\<close> when
  \<open>test\<close> returns, whatever happens afterwards; when the launch of the instance succeeds
  as well, the instance is in \<open>nodes\<close> when \<open>test\<close> returns, whether the wait or the
  probe then succeed, fail or raise. Each list has grown by exactly this one element, so
  a service that starts with empty lists, as \<open>__init__\<close> leaves them, ends with exactly
  one image and one instance.
\<close>

theorem test_records_resources:
  assumes "gce_image_name_of (object_name img) = Inr name"
      and "url = STORAGE_URL @ ''/'' @ GCE_STORAGE_CONTAINER cfg @ ''/'' @ object_name img"
      and "ex_create_image C (calls s) name url True = Inr gi"
  shows "gce_images (snd (test cfg C connect img s)) = gce_images s @ [gi] \<and>
         (list_locations C (calls s @ [ExCreateImage name url True]) = Inr (loc # locs) \<and>
          list_sizes C (calls s @ [ExCreateImage name url True, ListLocations]) loc = Inr sizes \<and>
          cheapest_size sizes = Inr sz \<and>
          create_node C (calls s @ [ExCreateImage name url True, ListLocations, ListSizes loc])
            (image_name gi) sz gi loc = Inr nd
          \<longrightarrow> nodes (snd (test cfg C connect img s)) = nodes s @ [nd])"
  using test_records_image[OF assms, of connect]
        test_records_node[OF assms refl, of loc locs sizes sz nd connect]
  by simp

theorem test_records_resources_witness:
  "gce_images (snd (test mock_config mock_compute never_up fake_image init)) =
     [\<lparr>image_name = ''fake-img-1-2-3''\<rparr>] \<and>
   nodes (snd (test mock_config mock_compute never_up fake_image init)) =
     [\<lparr>node_name = ''fake-img-1-2-3'', public_ips = [''203.0.113.7'']\<rparr>]"
proof -
  have reg: "ex_create_image mock_compute (calls init) ''fake-img-1-2-3''
               ''https://storage.googleapis.com/fedimg-images/fake-img-1.2-3.tar.gz'' True =
             Inr \<lparr>image_name = ''fake-img-1-2-3''\<rparr>"
    by (simp add: mock_compute_def)
  have url: "''https://storage.googleapis.com/fedimg-images/fake-img-1.2-3.tar.gz'' =
             STORAGE_URL @ ''/'' @ GCE_STORAGE_CONTAINER mock_config @ ''/'' @ object_name fake_image"
    by (simp add: STORAGE_URL_def mock_config_def fake_image_def)
  from test_records_resources[OF fake_name url reg,
         of never_up "''us-central1-a''" "[''europe-west1-b'']" _
            "\<lparr>size_name = ''f1-micro'', price = 0.01\<rparr>"
            "\<lparr>node_name = ''fake-img-1-2-3'', public_ips = [''203.0.113.7'']\<rparr>"]
       mock_cheapest
  show ?thesis
    by (simp add: mock_compute_def init_def)
qed

text \<open>
  C5. On a run that reaches the probe (registration, launch and the wait for the running
  state succeed, and the instance has a public address): if all 60 connection attempts
  fail, \<open>test\<close> raises \<open>SSHConnectionError\<close> with a message that holds the name of the
  instance; if the attempt after \<open>k < 60\<close> failed ones succeeds, \<open>test\<close> returns without
  raising, and that attempt is the last call it issues to the instance.
\<close>

theorem test_probe_outcome:
  assumes "gce_image_name_of (object_name img) = Inr name"
      and "url = STORAGE_URL @ ''/'' @ GCE_STORAGE_CONTAINER cfg @ ''/'' @ object_name img"
      and "ex_create_image C (calls s) name url True = Inr gi"
      and "h1 = calls s @ [ExCreateImage name url True]"
      and "list_locations C h1 = Inr (loc # locs)"
      and "list_sizes C (h1 @ [ListLocations]) loc = Inr sizes"
      and "cheapest_size sizes = Inr sz"
      and "create_node C (h1 @ [ListLocations, ListSizes loc]) (image_name gi) sz gi loc = Inr nd"
      and "h2 = h1 @ [ListLocations, ListSizes loc, CreateNode (image_name gi) sz gi loc]"
      and "wait_until_running C h2 [nd] 10 600 = Inr ()"
      and "index0 (str_split ''@'' (GCE_EMAIL cfg)) = Inr username"
      and "public_ips nd = ip # ips"
      and "h3 = h2 @ [WaitUntilRunning [nd] 10 600]"
  shows "((\<forall>j<60. fails_at connect (h3 @ retries j ip username (GCE_KEYPATH cfg) 60)
                    ip username (GCE_KEYPATH cfg)) \<longrightarrow>
            fst (test cfg C connect img s) =
              Inl (SSHConnectionError
                    (''Cannot SSH to test instance '' @ node_name nd @
                     ''. Perhaps the image is improperly configured for GCE.'')) \<and>
            calls (snd (test cfg C connect img s)) =
              h3 @ retries 59 ip username (GCE_KEYPATH cfg) 60 @
              last_attempt ip username (GCE_KEYPATH cfg)) \<and>
         (k < 60 \<and>
          (\<forall>j<k. fails_at connect (h3 @ retries j ip username (GCE_KEYPATH cfg) 60)
                    ip username (GCE_KEYPATH cfg)) \<and>
          connect (h3 @ retries k ip username (GCE_KEYPATH cfg) 60)
            ip username (GCE_KEYPATH cfg) = Inr () \<longrightarrow>
            fst (test cfg C connect img s) = Inr () \<and>
            calls (snd (test cfg C connect img s)) =
              h3 @ retries k ip username (GCE_KEYPATH cfg) 60 @
              last_attempt ip username (GCE_KEYPATH cfg))"
proof -
  from test_reaches_probe[OF assms, of connect]
  obtain sP where t: "test cfg C connect img s =
           (case ssh_connection_works connect username ip (GCE_KEYPATH cfg) 60 60 sP of
              (Inl e, s14) \<Rightarrow> (Inl e, s14)
            | (Inr works, s14) \<Rightarrow>
                if \<not> works then
                  (Inl (SSHConnectionError
                         (''Cannot SSH to test instance '' @ node_name nd @ ''. '' @
                          ''Perhaps the image is improperly '' @
                          ''configured for GCE.'')),
                   s14)
                else
                  (Inr (),
                   log INFO (''Image '' @ object_name img @ '' passed a basic sanity test'') s14))"
     and c: "calls sP = h3"
    by blast
  let ?P = "ssh_connection_works connect username ip (GCE_KEYPATH cfg) 60 60 sP"
  have a: "fst (test cfg C connect img s) =
              Inl (SSHConnectionError
                    (''Cannot SSH to test instance '' @ node_name nd @
                     ''. Perhaps the image is improperly configured for GCE.'')) \<and>
            calls (snd (test cfg C connect img s)) =
              h3 @ retries 59 ip username (GCE_KEYPATH cfg) 60 @
              last_attempt ip username (GCE_KEYPATH cfg)"
    if "\<forall>j<60. fails_at connect (h3 @ retries j ip username (GCE_KEYPATH cfg) 60)
                    ip username (GCE_KEYPATH cfg)"
  proof -
    have "fst ?P = Inr False \<and>
          calls (snd ?P) = calls sP @ retries (nat (max 1 60) - 1) ip username (GCE_KEYPATH cfg) 60 @
                           last_attempt ip username (GCE_KEYPATH cfg)"
      by (rule ssh_connection_works_all_fail) (use that c in simp_all)
    then show ?thesis
      by (cases ?P) (simp add: t c)
  qed
  have b: "fst (test cfg C connect img s) = Inr () \<and>
            calls (snd (test cfg C connect img s)) =
              h3 @ retries k ip username (GCE_KEYPATH cfg) 60 @
              last_attempt ip username (GCE_KEYPATH cfg)"
    if "k < 60" 
       "\<forall>j<k. fails_at connect (h3 @ retries j ip username (GCE_KEYPATH cfg) 60)
                    ip username (GCE_KEYPATH cfg)"
       "connect (h3 @ retries k ip username (GCE_KEYPATH cfg) 60)
            ip username (GCE_KEYPATH cfg) = Inr ()"
  proof -
    have "fst ?P = Inr True \<and>
          calls (snd ?P) = calls sP @ retries k ip username (GCE_KEYPATH cfg) 60 @
                           last_attempt ip username (GCE_KEYPATH cfg)"
      by (rule ssh_connection_works_first_success) (use that c in simp_all)
    then show ?thesis
      by (cases ?P) (simp add: t c)
  qed
  from a b show ?thesis by blast
qed

theorem test_probe_outcome_witness:
  "fst (test mock_config mock_compute never_up fake_image init) =
     Inl (SSHConnectionError
       ''Cannot SSH to test instance fake-img-1-2-3. Perhaps the image is improperly configured for GCE.'') \<and>
   fst (test mock_config mock_compute up_after_six_calls fake_image init) = Inr ()"
proof -
  let ?url = "''https://storage.googleapis.com/fedimg-images/fake-img-1.2-3.tar.gz''"
  let ?gi = "\<lparr>image_name = ''fake-img-1-2-3''\<rparr>"
  let ?sz = "\<lparr>size_name = ''f1-micro'', price = 0.01\<rparr>"
  let ?nd = "\<lparr>node_name = ''fake-img-1-2-3'', public_ips = [''203.0.113.7'']\<rparr>"
  let ?h1 = "[ExCreateImage ''fake-img-1-2-3'' ?url True]"
  let ?h2 = "?h1 @ [ListLocations, ListSizes ''us-central1-a'',
                   CreateNode ''fake-img-1-2-3'' ?sz ?gi ''us-central1-a'']"
  let ?h3 = "?h2 @ [WaitUntilRunning [?nd] 10 600]"
  have reg: "ex_create_image mock_compute (calls init) ''fake-img-1-2-3'' ?url True = Inr ?gi"
    by (simp add: mock_compute_def)
  have h1: "?h1 = calls init @ [ExCreateImage ''fake-img-1-2-3'' ?url True]"
    by (simp add: init_def)
  have locs: "list_locations mock_compute ?h1 = Inr (''us-central1-a'' # [''europe-west1-b''])"
    by (simp add: mock_compute_def)
  have sizes: "list_sizes mock_compute (?h1 @ [ListLocations]) ''us-central1-a'' =
     Inr [\<lparr>size_name = ''n1-standard-1'', price = 1.2\<rparr>,
          \<lparr>size_name = ''g1-small'', price = 0.1\<rparr>,
          \<lparr>size_name = ''n1-highmem-16'', price = 999\<rparr>,
          \<lparr>size_name = ''f1-micro'', price = 0.01\<rparr>,
          \<lparr>size_name = ''f1-mini'', price = 0.011\<rparr>]"
    by (simp add: mock_compute_def)
  have launch: "create_node mock_compute (?h1 @ [ListLocations, ListSizes ''us-central1-a''])
                  (image_name ?gi) ?sz ?gi ''us-central1-a'' = Inr ?nd"
    by (simp add: mock_compute_def)
  have h2: "?h2 = ?h1 @ [ListLocations, ListSizes ''us-central1-a'',
                        CreateNode (image_name ?gi) ?sz ?gi ''us-central1-a'']"
    by simp
  have run: "wait_until_running mock_compute ?h2 [?nd] 10 600 = Inr ()"
    by (simp add: mock_compute_def)
  have ip: "public_ips ?nd = ''203.0.113.7'' # []"
    by simp
  note hyps = fake_name fake_url reg h1 locs sizes mock_cheapest launch h2 run mock_user ip refl
  have down: "\<forall>j<60. fails_at never_up
                (?h3 @ retries j ''203.0.113.7'' ''fedimg'' (GCE_KEYPATH mock_config) 60)
                ''203.0.113.7'' ''fedimg'' (GCE_KEYPATH mock_config)"
    by (simp add: fails_at_def never_up_def)
  have late: "\<forall>j<1. fails_at up_after_six_calls
                (?h3 @ retries j ''203.0.113.7'' ''fedimg'' (GCE_KEYPATH mock_config) 60)
                ''203.0.113.7'' ''fedimg'' (GCE_KEYPATH mock_config)"
    by (simp add: fails_at_def up_after_six_calls_def retries_0)
  have up: "up_after_six_calls
                (?h3 @ retries 1 ''203.0.113.7'' ''fedimg'' (GCE_KEYPATH mock_config) 60)
                ''203.0.113.7'' ''fedimg'' (GCE_KEYPATH mock_config) = Inr ()"
    by (simp add: up_after_six_calls_def length_retries)
  from test_probe_outcome[OF hyps, of never_up 0] down
  have a: "fst (test mock_config mock_compute never_up fake_image init) =
           Inl (SSHConnectionError (''Cannot SSH to test instance '' @ node_name ?nd @
                     ''. Perhaps the image is improperly configured for GCE.''))"
    by blast
  from test_probe_outcome[OF hyps, of up_after_six_calls 1] late up
  have b: "fst (test mock_config mock_compute up_after_six_calls fake_image init) = Inr ()"
    by simp
  from a b show ?thesis by simp
qed

text \<open>
  C10. The three reads at index 0 are unguarded: once the image is registered, an empty
  list of locations, an empty list of sizes for the chosen location, or (after a launch
  and a wait that succeed) an instance without public address make \<open>test\<close> end with
  \<open>IndexError\<close>, which is neither \<open>ImageURLError\<close> nor \<open>SSHConnectionError\<close>.
\<close>

theorem test_index_errors:
  assumes "gce_image_name_of (object_name img) = Inr name"
      and "url = STORAGE_URL @ ''/'' @ GCE_STORAGE_CONTAINER cfg @ ''/'' @ object_name img"
      and "ex_create_image C (calls s) name url True = Inr gi"
      and "h1 = calls s @ [ExCreateImage name url True]"
  shows "(list_locations C h1 = Inr [] \<longrightarrow>
            fst (test cfg C connect img s) = Inl IndexError) \<and>
         (list_locations C h1 = Inr (loc # locs) \<and>
          list_sizes C (h1 @ [ListLocations]) loc = Inr [] \<longrightarrow>
            fst (test cfg C connect img s) = Inl IndexError) \<and>
         (list_locations C h1 = Inr (loc # locs) \<and>
          list_sizes C (h1 @ [ListLocations]) loc = Inr sizes \<and>
          cheapest_size sizes = Inr sz \<and>
          create_node C (h1 @ [ListLocations, ListSizes loc]) (image_name gi) sz gi loc = Inr nd \<and>
          wait_until_running C
            (h1 @ [ListLocations, ListSizes loc, CreateNode (image_name gi) sz gi loc])
            [nd] 10 600 = Inr () \<and>
          public_ips nd = [] \<longrightarrow>
            fst (test cfg C connect img s) = Inl IndexError)"
  using assms
  by (auto simp: test_def Let_def cheapest_size_def index0_str_split)

theorem test_index_errors_witness:
  "fst (test mock_config no_locations never_up fake_image init) = Inl IndexError \<and>
   fst (test mock_config no_sizes never_up fake_image init) = Inl IndexError \<and>
   fst (test mock_config no_public_ips never_up fake_image init) = Inl IndexError"
proof -
  let ?url = "''https://storage.googleapis.com/fedimg-images/fake-img-1.2-3.tar.gz''"
  let ?gi = "\<lparr>image_name = ''fake-img-1-2-3''\<rparr>"
  let ?sz = "\<lparr>size_name = ''f1-micro'', price = 0.01\<rparr>"
  let ?nd = "\<lparr>node_name = ''fake-img-1-2-3'', public_ips = []\<rparr>"
  let ?h1 = "[ExCreateImage ''fake-img-1-2-3'' ?url True]"
  have h1: "?h1 = calls init @ [ExCreateImage ''fake-img-1-2-3'' ?url True]"
    by (simp add: init_def)
  have r1: "ex_create_image no_locations (calls init) ''fake-img-1-2-3'' ?url True = Inr ?gi"
    by (simp add: no_locations_def mock_compute_def)
  have r2: "ex_create_image no_sizes (calls init) ''fake-img-1-2-3'' ?url True = Inr ?gi"
    by (simp add: no_sizes_def mock_compute_def)
  have r3: "ex_create_image no_public_ips (calls init) ''fake-img-1-2-3'' ?url True = Inr ?gi"
    by (simp add: no_public_ips_def mock_compute_def)
  have l1: "list_locations no_locations ?h1 = Inr []"
    by (simp add: no_locations_def mock_compute_def)
  have l2: "list_locations no_sizes ?h1 = Inr (''us-central1-a'' # [''europe-west1-b''])"
    by (simp add: no_sizes_def mock_compute_def)
  have z2: "list_sizes no_sizes (?h1 @ [ListLocations]) ''us-central1-a'' = Inr []"
    by (simp add: no_sizes_def mock_compute_def)
  have l3: "list_locations no_public_ips ?h1 = Inr (''us-central1-a'' # [''europe-west1-b''])"
    by (simp add: no_public_ips_def mock_compute_def)
  have z3: "list_sizes no_public_ips (?h1 @ [ListLocations]) ''us-central1-a'' =
     Inr [\<lparr>size_name = ''n1-standard-1'', price = 1.2\<rparr>,
          \<lparr>size_name = ''g1-small'', price = 0.1\<rparr>,
          \<lparr>size_name = ''n1-highmem-16'', price = 999\<rparr>,
          \<lparr>size_name = ''f1-micro'', price = 0.01\<rparr>,
          \<lparr>size_name = ''f1-mini'', price = 0.011\<rparr>]"
    by (simp add: no_public_ips_def mock_compute_def)
  have c3: "create_node no_public_ips (?h1 @ [ListLocations, ListSizes ''us-central1-a''])
              (image_name ?gi) ?sz ?gi ''us-central1-a'' = Inr ?nd"
    by (simp add: no_public_ips_def mock_compute_def)
  have w3: "wait_until_running no_public_ips
              (?h1 @ [ListLocations, ListSizes ''us-central1-a'',
                      CreateNode (image_name ?gi) ?sz ?gi ''us-central1-a''])
              [?nd] 10 600 = Inr ()"
    by (simp add: no_public_ips_def mock_compute_def)
  have p3: "public_ips ?nd = []" by simp
  from test_index_errors[where connect = never_up, OF fake_name fake_url r1 h1] l1
  have a: "fst (test mock_config no_locations never_up fake_image init) = Inl IndexError"
    by blast
  from test_index_errors[where connect = never_up and loc = "''us-central1-a''"
         and locs = "[''europe-west1-b'']", OF fake_name fake_url r2 h1] l2 z2
  have b: "fst (test mock_config no_sizes never_up fake_image init) = Inl IndexError"
    by blast
  from test_index_errors[where connect = never_up and loc = "''us-central1-a''"
         and locs = "[''europe-west1-b'']" and sz = ?sz and nd = ?nd,
         OF fake_name fake_url r3 h1] l3 z3 mock_cheapest c3 w3 p3
  have c: "fst (test mock_config no_public_ips never_up fake_image init) = Inl IndexError"
    by blast
  from a b c show ?thesis by simp
qed

section \<open>Properties of the derived image name\<close>

lemma concat_runs: "concat (runs P s) = s"
  by (induction P s rule: runs.induct) simp_all

lemma re_sub_copy:
  "\<forall>x \<in> set xs. \<not> cls x \<Longrightarrow> re_sub cls repl (xs @ ys) = xs @ re_sub cls repl ys"
  by (induction xs) simp_all

lemma re_sub_runs:
  "re_sub cls repl s = concat (map (\<lambda>r. if cls (hd r) then repl else r) (runs cls s))"
proof (induction cls s rule: runs.induct)
  case (1 P)
  then show ?case by simp
next
  case (2 P c cs)
  show ?case
  proof (cases "P c")
    case True
    with "2.IH" have ih: "re_sub P repl (dropWhile P cs) =
        concat (map (\<lambda>r. if P (hd r) then repl else r) (runs P (dropWhile P cs)))"
      by simp
    from True have "runs P (c # cs) = (c # takeWhile P cs) # runs P (dropWhile P cs)"
      by simp
    with True ih show ?thesis by simp
  next
    case False
    with "2.IH" have ih: "re_sub P repl (dropWhile (\<lambda>d. \<not> P d) cs) =
        concat (map (\<lambda>r. if P (hd r) then repl else r) (runs P (dropWhile (\<lambda>d. \<not> P d) cs)))"
      by simp
    from False have r: "runs P (c # cs) =
        (c # takeWhile (\<lambda>d. \<not> P d) cs) # runs P (dropWhile (\<lambda>d. \<not> P d) cs)"
      by simp
    have "re_sub P repl cs =
          re_sub P repl (takeWhile (\<lambda>d. \<not> P d) cs @ dropWhile (\<lambda>d. \<not> P d) cs)"
      by simp
    also have "\<dots> = takeWhile (\<lambda>d. \<not> P d) cs @ re_sub P repl (dropWhile (\<lambda>d. \<not> P d) cs)"
      by (rule re_sub_copy) (auto dest: set_takeWhileD)
    finally have "re_sub P repl (c # cs) =
        c # takeWhile (\<lambda>d. \<not> P d) cs @ re_sub P repl (dropWhile (\<lambda>d. \<not> P d) cs)"
      using False by simp
    with False ih show ?thesis
      unfolding r by simp
  qed
qed
lemma re_sub_spec: "re_sub non_alnum ''-'' s = spec_replace_runs s"
  by (simp add: re_sub_runs spec_replace_runs_def)

lemma str_split_no_occurrence:
  "\<not> sublist sep s \<Longrightarrow> str_split sep s = [s]"
proof (induction sep s rule: str_split.induct)
  case (1 sep)
  then show ?case by simp
next
  case (2 sep c cs)
  from "2.prems" have np: "\<not> prefix sep (c # cs)" and ns: "\<not> sublist sep cs"
    by (simp_all add: sublist_Cons_right)
  from "2.IH"(2) np ns have "str_split sep cs = [cs]" by simp
  with np show ?case by simp
qed

lemma prefix_in_front:
  assumes "prefix sep (stem @ sep @ rest)" "stem \<noteq> []" "sep \<noteq> []"
  shows "sublist sep (stem @ butlast sep)"
proof -
  have split: "stem @ sep @ rest = (stem @ butlast sep) @ (last sep # rest)"
    using assms(3) by simp
  from assms(1) have "prefix sep ((stem @ butlast sep) @ (last sep # rest))"
    unfolding split .
  then consider "prefix sep (stem @ butlast sep)"
    | us where "sep = (stem @ butlast sep) @ us"
    unfolding prefix_append by blast
  then have "prefix sep (stem @ butlast sep)"
  proof cases
    case 1
    then show ?thesis .
  next
    case 2
    then have "length sep = length ((stem @ butlast sep) @ us)" by simp
    then have "length sep = length stem + (length sep - 1) + length us" by simp
    with assms(2,3) have "us = []" by (cases stem; cases sep) auto
    with 2 show ?thesis by simp
  qed
  then show ?thesis by (rule prefix_imp_sublist)
qed


lemma hd_str_split_first:
  assumes "sep \<noteq> []" "\<not> sublist sep (stem @ butlast sep)"
  shows "hd (str_split sep (stem @ sep @ rest)) = stem"
  using assms(2)
proof (induction stem)
  case Nil
  from assms(1) obtain c cs where s: "sep @ rest = c # cs" by (cases sep) auto
  have "prefix sep (c # cs)" unfolding s[symmetric] by simp
  with assms(1) have "hd (str_split sep (c # cs)) = []" by simp
  then show ?case unfolding append_Nil s .
next
  case (Cons c stem)
  have np: "\<not> prefix sep (c # stem @ sep @ rest)"
    using prefix_in_front[of sep "c # stem" rest] Cons.prems assms(1) by auto
  have "\<not> sublist sep (stem @ butlast sep)"
    using Cons.prems by (simp add: sublist_Cons_right)
  from Cons.IH[OF this] have ih: "hd (str_split sep (stem @ sep @ rest)) = stem" .
  obtain p ps where pp: "str_split sep (stem @ sep @ rest) = p # ps"
    using str_split_nonempty[of sep "stem @ sep @ rest"]
    by (cases "str_split sep (stem @ sep @ rest)") auto
  with ih have "p = stem" by simp
  with np pp show ?case by simp
qed

text \<open>
  C6, as stated: the derived name is the object name without its \<open>.tar.gz\<close> suffix, every
  maximal run of other characters replaced by a hyphen. The source does not strip a
  suffix: \<open>image.name.split('.tar.gz')[0]\<close> keeps what precedes the first occurrence of
  \<open>.tar.gz\<close>. For an object name in which \<open>.tar.gz\<close> also occurs before the end the two
  differ.
\<close>

theorem gce_image_name_suffix_counterexample:
  "gce_image_name_of ''fedora.tar.gz.old.tar.gz'' = Inr ''fedora'' \<and>
   spec_image_name ''fedora.tar.gz.old.tar.gz'' = ''fedora-tar-gz-old'' \<and>
   gce_image_name_of ''fedora.tar.gz.old.tar.gz'' \<noteq> Inr (spec_image_name ''fedora.tar.gz.old.tar.gz'')"
  by (simp add: gce_image_name_of_def spec_image_name_def spec_strip_suffix_def
        spec_replace_runs_def non_alnum_def alnum_def suffix_def)

text \<open>
  C6, amended: the derived name is the part of the object name before the first
  occurrence of \<open>.tar.gz\<close> (the whole name when there is none), every maximal run of
  characters outside \<open>[A-Za-z0-9]\<close> replaced by a single hyphen. When the only occurrence
  of \<open>.tar.gz\<close> is the suffix, this is the name of the specification; in particular
  \<open>fake-img-1.2-3.tar.gz\<close> gives \<open>fake-img-1-2-3\<close>.
\<close>

theorem gce_image_name_of_first_occurrence:
  "(\<not> sublist ''.tar.gz'' name \<longrightarrow>
      gce_image_name_of name = Inr (spec_replace_runs name)) \<and>
   (\<not> sublist ''.tar.gz'' (stem @ ''.tar.g'') \<longrightarrow>
      gce_image_name_of (stem @ ''.tar.gz'' @ rest) = Inr (spec_replace_runs stem) \<and>
      gce_image_name_of (stem @ ''.tar.gz'') = Inr (spec_image_name (stem @ ''.tar.gz''))) \<and>
   gce_image_name_of ''fake-img-1.2-3.tar.gz'' = Inr ''fake-img-1-2-3''"
proof (intro conjI impI)
  assume "\<not> sublist ''.tar.gz'' name"
  then show "gce_image_name_of name = Inr (spec_replace_runs name)"
    by (simp add: gce_image_name_of_total str_split_no_occurrence re_sub_spec)
next
  assume a: "\<not> sublist ''.tar.gz'' (stem @ ''.tar.g'')"
  have b: "butlast ''.tar.gz'' = ''.tar.g''" by simp
  have h: "hd (str_split ''.tar.gz'' (stem @ ''.tar.gz'' @ rest')) = stem" for rest'
    by (rule hd_str_split_first) (use a b in simp_all)
  from h[of rest] show "gce_image_name_of (stem @ ''.tar.gz'' @ rest) = Inr (spec_replace_runs stem)"
    by (simp only: gce_image_name_of_total re_sub_spec)
  have "spec_strip_suffix (stem @ ''.tar.gz'') = stem"
    by (simp add: spec_strip_suffix_def suffix_def)
  with h[of "[]"] show "gce_image_name_of (stem @ ''.tar.gz'') = Inr (spec_image_name (stem @ ''.tar.gz''))"
    by (simp only: gce_image_name_of_total re_sub_spec spec_image_name_def append_Nil2)
next
  show "gce_image_name_of ''fake-img-1.2-3.tar.gz'' = Inr ''fake-img-1-2-3''"
    by (simp add: gce_image_name_of_def non_alnum_def alnum_def)
qed


theorem gce_image_name_of_first_occurrence_witness:
  "gce_image_name_of ''fedora-25'' = Inr ''fedora-25'' \<and>
   gce_image_name_of ''fedora_25.1.tar.gz.old.tar.gz'' = Inr ''fedora-25-1'' \<and>
   gce_image_name_of ''fedora_25.1.tar.gz'' = Inr (spec_image_name ''fedora_25.1.tar.gz'')"
proof -
  have n: "\<not> sublist ''.tar.gz'' ''fedora-25''"
    by (simp add: sublist_Cons_right)
  have s: "\<not> sublist ''.tar.gz'' (''fedora_25.1'' @ ''.tar.g'')"
    by (simp add: sublist_Cons_right)
  from gce_image_name_of_first_occurrence[of "''fedora-25''" "''fedora_25.1''" "''.old.tar.gz''"] n s
  have "gce_image_name_of ''fedora-25'' = Inr (spec_replace_runs ''fedora-25'') \<and>
        gce_image_name_of (''fedora_25.1'' @ ''.tar.gz'' @ ''.old.tar.gz'') =
          Inr (spec_replace_runs ''fedora_25.1'') \<and>
        gce_image_name_of (''fedora_25.1'' @ ''.tar.gz'') =
          Inr (spec_image_name (''fedora_25.1'' @ ''.tar.gz''))"
    by blast
  then show ?thesis
    by (simp add: spec_replace_runs_def non_alnum_def alnum_def)
qed

section \<open>Properties of the choice of the size\<close>

text \<open>
  Prices are modelled as real numbers, on which the comparison of the sort is a linear
  order, as it is on the floats that are not NaN.
\<close>

lemma hd_insort_key:
  "hd (insort_key f x ys) = (if ys = [] \<or> f x \<le> f (hd ys) then x else hd ys)"
  by (cases ys) simp_all

lemma sort_key_nonempty: "xs \<noteq> [] \<Longrightarrow> sort_key f xs \<noteq> []"
  by (metis length_0_conv length_sort)

lemma hd_sort_key_Cons:
  "hd (sort_key f (x # xs)) =
     (if xs = [] \<or> f x \<le> f (hd (sort_key f xs)) then x else hd (sort_key f xs))"
  using sort_key_nonempty[of xs f] by (auto simp: hd_insort_key)

lemma hd_sort_key_first_min:
  "xs \<noteq> [] \<Longrightarrow>
   \<exists>i<length xs. xs ! i = hd (sort_key f xs) \<and>
     (\<forall>y \<in> set xs. f (hd (sort_key f xs)) \<le> f y) \<and>
     (\<forall>j<i. f (hd (sort_key f xs)) < f (xs ! j))"
proof (induction xs)
  case Nil
  then show ?case by simp
next
  case (Cons x xs)
  show ?case
  proof (cases "xs = []")
    case True
    then show ?thesis by simp
  next
    case False
    let ?m = "hd (sort_key f xs)"
    from Cons.IH[OF False] obtain i where i: "i < length xs" "xs ! i = ?m"
      "\<forall>y \<in> set xs. f ?m \<le> f y" "\<forall>j<i. f ?m < f (xs ! j)"
      by blast
    show ?thesis
    proof (cases "f x \<le> f ?m")
      case True
      then have h: "hd (sort_key f (x # xs)) = x"
        by (simp only: hd_sort_key_Cons) simp
      have "\<forall>y \<in> set (x # xs). f x \<le> f y"
        using True i(3) by auto
      then show ?thesis
        unfolding h by (intro exI[of _ 0]) simp
    next
      case nle: False
      then have h: "hd (sort_key f (x # xs)) = ?m"
        using False by (simp only: hd_sort_key_Cons) simp
      have a: "\<forall>y \<in> set (x # xs). f ?m \<le> f y"
        using nle i(3) by auto
      have b: "\<forall>j<Suc i. f ?m < f ((x # xs) ! j)"
      proof (intro allI impI)
        fix j assume "j < Suc i"
        then show "f ?m < f ((x # xs) ! j)"
          using nle i(4) by (cases j) auto
      qed
      show ?thesis
        unfolding h using i(1,2) a b by (intro exI[of _ "Suc i"]) simp
    qed
  qed
qed

text \<open>
  C7. For a non-empty list of sizes, the size chosen for the test instance is an element
  of the list whose price is the least price of the list, and every element before it has
  a strictly greater price: among the sizes of least price it is the first in the order
  the provider returned. With the prices 1.2, 0.1, 999, 0.01, 0.011 of the test suite it
  is the size priced 0.01.
\<close>

theorem cheapest_size_first_minimum:
  "sizes \<noteq> [] \<Longrightarrow>
   \<exists>sz i. cheapest_size sizes = Inr sz \<and> i < length sizes \<and> sizes ! i = sz \<and>
     (\<forall>y \<in> set sizes. price sz \<le> price y) \<and>
     (\<forall>j<i. price sz < price (sizes ! j))"
proof -
  assume ne: "sizes \<noteq> []"
  then have "cheapest_size sizes = Inr (hd (sort_key price sizes))"
    using sort_key_nonempty[of sizes price]
    by (cases "sort_key price sizes") (simp_all add: cheapest_size_def)
  with hd_sort_key_first_min[OF ne, of price] show ?thesis
    by auto
qed

theorem cheapest_size_first_minimum_witness:
  "cheapest_size
     [\<lparr>size_name = ''n1-standard-1'', price = 1.2\<rparr>,
      \<lparr>size_name = ''g1-small'', price = 0.1\<rparr>,
      \<lparr>size_name = ''n1-highmem-16'', price = 999\<rparr>,
      \<lparr>size_name = ''f1-micro'', price = 0.01\<rparr>,
      \<lparr>size_name = ''f1-mini'', price = 0.011\<rparr>] = Inr \<lparr>size_name = ''f1-micro'', price = 0.01\<rparr> \<and>
   cheapest_size
     [\<lparr>size_name = ''a'', price = 0.5\<rparr>,
      \<lparr>size_name = ''b'', price = 0.01\<rparr>,
      \<lparr>size_name = ''c'', price = 0.01\<rparr>] = Inr \<lparr>size_name = ''b'', price = 0.01\<rparr>"
  using cheapest_size_first_minimum[of
     "[\<lparr>size_name = ''n1-standard-1'', price = 1.2\<rparr>,
      \<lparr>size_name = ''g1-small'', price = 0.1\<rparr>,
      \<lparr>size_name = ''n1-highmem-16'', price = 999\<rparr>,
      \<lparr>size_name = ''f1-micro'', price = 0.01\<rparr>,
      \<lparr>size_name = ''f1-mini'', price = 0.011\<rparr>]"]
  by (simp add: cheapest_size_def)

section \<open>Properties of upload\<close>

text \<open>
  C8. When the fetch of the source URL returns a response that is not \<open>ok\<close>, whether the
  container existed or has just been created, \<open>upload\<close> raises \<open>ImageURLError\<close> with the
  message \<open>GET request to image failed (URL). The server response code was CODE\<close>, made
  of the URL and of the status code as \<open>format\<close> prints it; the body of the response is
  not read, and the fetch is the last call: nothing is uploaded. A status code of -1 gives
  a message that ends with \<open>response code was -1\<close>.
\<close>

theorem upload_bad_status:
  assumes "\<not> ok resp"
  shows "(get_container ST (calls s) (GCE_STORAGE_CONTAINER cfg) = Inr cont \<and>
          get (calls s @ [GetContainer (GCE_STORAGE_CONTAINER cfg)]) image_url = Inr resp \<longrightarrow>
            fst (upload cfg ST get image_url s) =
              Inl (ImageURLError
                    (''GET request to image failed ('' @ image_url @
                     ''). The server response code was '' @ show_int (status_code resp))) \<and>
            calls (snd (upload cfg ST get image_url s)) =
              calls s @ [GetContainer (GCE_STORAGE_CONTAINER cfg), RequestsGet image_url True]) \<and>
         (get_container ST (calls s) (GCE_STORAGE_CONTAINER cfg) = Inl ContainerDoesNotExistError \<and>
          create_container ST (calls s @ [GetContainer (GCE_STORAGE_CONTAINER cfg)])
            (GCE_STORAGE_CONTAINER cfg) = Inr cont \<and>
          get (calls s @ [GetContainer (GCE_STORAGE_CONTAINER cfg),
                          CreateContainer (GCE_STORAGE_CONTAINER cfg)]) image_url = Inr resp \<longrightarrow>
            fst (upload cfg ST get image_url s) =
              Inl (ImageURLError
                    (''GET request to image failed ('' @ image_url @
                     ''). The server response code was '' @ show_int (status_code resp))) \<and>
            calls (snd (upload cfg ST get image_url s)) =
              calls s @ [GetContainer (GCE_STORAGE_CONTAINER cfg),
                         CreateContainer (GCE_STORAGE_CONTAINER cfg), RequestsGet image_url True])"
  using assms
  by (auto simp: upload_def Let_def)

theorem upload_bad_status_witness:
  "fst (upload mock_config mock_storage bad_response FAKE_IMAGE_URL init) =
     Inl (ImageURLError
       ''GET request to image failed (http://fake.fedimg.com/fake-img-1.2-3.tar.gz). The server response code was -1'') \<and>
   calls (snd (upload mock_config mock_storage bad_response FAKE_IMAGE_URL init)) =
     [GetContainer ''fedimg-images'', RequestsGet FAKE_IMAGE_URL True] \<and>
   fst (upload mock_config no_container bad_response FAKE_IMAGE_URL init) =
     Inl (ImageURLError
       ''GET request to image failed (http://fake.fedimg.com/fake-img-1.2-3.tar.gz). The server response code was -1'') \<and>
   calls (snd (upload mock_config no_container bad_response FAKE_IMAGE_URL init)) =
     [GetContainer ''fedimg-images'', CreateContainer ''fedimg-images'', RequestsGet FAKE_IMAGE_URL True]"
proof -
  let ?resp = "\<lparr>ok = False, status_code = - 1, content = ''<html>''\<rparr>"
  let ?c = "\<lparr>container_name = ''fedimg-images''\<rparr>"
  have bad: "\<not> ok ?resp" by simp
  have g1: "get_container mock_storage (calls init) (GCE_STORAGE_CONTAINER mock_config) = Inr ?c"
    by (simp add: mock_storage_def mock_config_def)
  have r1: "bad_response (calls init @ [GetContainer (GCE_STORAGE_CONTAINER mock_config)])
              FAKE_IMAGE_URL = Inr ?resp"
    by (simp add: bad_response_def)
  have g2: "get_container no_container (calls init) (GCE_STORAGE_CONTAINER mock_config) =
              Inl ContainerDoesNotExistError"
    by (simp add: no_container_def mock_storage_def)
  have c2: "create_container no_container (calls init @ [GetContainer (GCE_STORAGE_CONTAINER mock_config)])
              (GCE_STORAGE_CONTAINER mock_config) = Inr ?c"
    by (simp add: no_container_def mock_storage_def mock_config_def)
  have r2: "bad_response (calls init @ [GetContainer (GCE_STORAGE_CONTAINER mock_config),
              CreateContainer (GCE_STORAGE_CONTAINER mock_config)]) FAKE_IMAGE_URL = Inr ?resp"
    by (simp add: bad_response_def)
  have code: "show_int (status_code ?resp) = ''-1''"
    by (simp add: show_int_def digit_char_def)
  from upload_bad_status[OF bad, of mock_storage init mock_config ?c bad_response FAKE_IMAGE_URL] g1 r1
  have a: "fst (upload mock_config mock_storage bad_response FAKE_IMAGE_URL init) =
              Inl (ImageURLError
                    (''GET request to image failed ('' @ FAKE_IMAGE_URL @
                     ''). The server response code was '' @ show_int (status_code ?resp))) \<and>
            calls (snd (upload mock_config mock_storage bad_response FAKE_IMAGE_URL init)) =
              calls init @ [GetContainer (GCE_STORAGE_CONTAINER mock_config), RequestsGet FAKE_IMAGE_URL True]"
    by blast
  from upload_bad_status[OF bad, of no_container init mock_config ?c bad_response FAKE_IMAGE_URL] g2 c2 r2
  have b: "fst (upload mock_config no_container bad_response FAKE_IMAGE_URL init) =
              Inl (ImageURLError
                    (''GET request to image failed ('' @ FAKE_IMAGE_URL @
                     ''). The server response code was '' @ show_int (status_code ?resp))) \<and>
            calls (snd (upload mock_config no_container bad_response FAKE_IMAGE_URL init)) =
              calls init @ [GetContainer (GCE_STORAGE_CONTAINER mock_config),
                         CreateContainer (GCE_STORAGE_CONTAINER mock_config), RequestsGet FAKE_IMAGE_URL True]"
    by blast
  from a b show ?thesis
    unfolding code by (simp add: init_def mock_config_def FAKE_IMAGE_URL_def)
qed

section \<open>Properties of share and publish\<close>

lemma share_prefix:
  "\<exists>k \<le> length entities.
     calls (snd (share cfg ST img entities s)) = calls s @ map (grant cfg img) (take k entities)"
proof (induction entities arbitrary: s)
  case Nil
  then show ?case by simp
next
  case (Cons e es)
  let ?s2 = "issue (grant cfg img e) (log INFO (''Sharing image '' @ object_name img @ '' with '' @ e) s)"
  show ?case
  proof (cases "ex_set_permissions ST (calls s) (GCE_STORAGE_CONTAINER cfg) (object_name img) e ''READER''")
    case (Inl x)
    then have "calls (snd (share cfg ST img (e # es) s)) = calls s @ map (grant cfg img) (take 1 (e # es))"
      by (simp add: Let_def grant_def)
    then show ?thesis by (intro exI[of _ 1]) simp
  next
    case (Inr u)
    then have step: "share cfg ST img (e # es) s = share cfg ST img es ?s2"
      by (simp add: Let_def grant_def)
    from Cons.IH[of ?s2] obtain k where k: "k \<le> length es"
      "calls (snd (share cfg ST img es ?s2)) = calls ?s2 @ map (grant cfg img) (take k es)"
      by blast
    then have "calls (snd (share cfg ST img (e # es) s)) =
               calls s @ map (grant cfg img) (take (Suc k) (e # es))"
      unfolding step by simp
    with k(1) show ?thesis by (intro exI[of _ "Suc k"]) simp
  qed
qed

lemma share_returns:
  "fst (share cfg ST img entities s) = Inr u \<Longrightarrow>
   calls (snd (share cfg ST img entities s)) = calls s @ map (grant cfg img) entities"
  by (induction entities arbitrary: s) (auto simp: Let_def grant_def split: sum.splits)

lemma share_total:
  "\<forall>tr. \<forall>e \<in> set entities.
     ex_set_permissions ST tr (GCE_STORAGE_CONTAINER cfg) (object_name img) e ''READER'' = Inr () \<Longrightarrow>
   fst (share cfg ST img entities s) = Inr ()"
  by (induction entities arbitrary: s) (auto simp: Let_def)

text \<open>
  C9. \<open>publish\<close> issues exactly one permission call, which gives the entity \<open>allUsers\<close>
  the role \<open>READER\<close> on the object name of the image in the configured container, and
  returns what that call returns. The calls \<open>share\<close> issues are grants of \<open>READER\<close> on
  that object name to the first \<open>k\<close> entities of the input sequence, in order, so to no
  other entity; when \<open>share\<close> returns normally they are the grants to all the entities of
  the sequence, and it does return normally when no grant raises (a grant that raises
  ends the loop).
\<close>

theorem publish_and_share_grants:
  "calls (snd (publish cfg ST img s)) =
     calls s @ [ExSetPermissions (GCE_STORAGE_CONTAINER cfg) (object_name img) ''allUsers'' ''READER''] \<and>
   fst (publish cfg ST img s) =
     ex_set_permissions ST (calls s) (GCE_STORAGE_CONTAINER cfg) (object_name img) ''allUsers'' ''READER'' \<and>
   (\<exists>k \<le> length entities.
      calls (snd (share cfg ST img entities s)) = calls s @ map (grant cfg img) (take k entities)) \<and>
   (fst (share cfg ST img entities s) = Inr () \<longrightarrow>
      calls (snd (share cfg ST img entities s)) = calls s @ map (grant cfg img) entities) \<and>
   ((\<forall>tr. \<forall>e \<in> set entities.
       ex_set_permissions ST tr (GCE_STORAGE_CONTAINER cfg) (object_name img) e ''READER'' = Inr ()) \<longrightarrow>
      fst (share cfg ST img entities s) = Inr ())"
  using share_prefix[of entities cfg ST img s] share_returns[of cfg ST img entities s "()"]
        share_total[of entities ST cfg img s]
  by (simp add: publish_def Let_def)

theorem publish_and_share_grants_witness:
  "fst (share mock_config mock_storage fake_image [''user-a@example.com'', ''group-b@example.com''] init) = Inr () \<and>
   calls (snd (share mock_config mock_storage fake_image [''user-a@example.com'', ''group-b@example.com''] init)) =
     [ExSetPermissions ''fedimg-images'' ''fake-img-1.2-3.tar.gz'' ''user-a@example.com'' ''READER'',
      ExSetPermissions ''fedimg-images'' ''fake-img-1.2-3.tar.gz'' ''group-b@example.com'' ''READER''] \<and>
   calls (snd (publish mock_config mock_storage fake_image init)) =
     [ExSetPermissions ''fedimg-images'' ''fake-img-1.2-3.tar.gz'' ''allUsers'' ''READER'']"
proof -
  let ?es = "[''user-a@example.com'', ''group-b@example.com'']"
  have ok: "\<forall>tr. \<forall>e \<in> set ?es.
       ex_set_permissions mock_storage tr (GCE_STORAGE_CONTAINER mock_config)
         (object_name fake_image) e ''READER'' = Inr ()"
    by (simp add: mock_storage_def)
  from publish_and_share_grants[of mock_config mock_storage fake_image init ?es] ok
  have "fst (share mock_config mock_storage fake_image ?es init) = Inr () \<and>
        calls (snd (share mock_config mock_storage fake_image ?es init)) =
          calls init @ map (grant mock_config fake_image) ?es \<and>
        calls (snd (publish mock_config mock_storage fake_image init)) =
          calls init @ [ExSetPermissions (GCE_STORAGE_CONTAINER mock_config) (object_name fake_image)
                          ''allUsers'' ''READER'']"
    by blast
  then show ?thesis
    by (simp add: init_def grant_def mock_config_def fake_image_def)
qed

end
